theory Spec2Isabelle
  imports Main "HOL-Library.Word"
begin

section \<open>Go library functions used by the filter engine and the community parser\<close>

text \<open>
  Go strings are byte sequences; \<^typ>\<open>string\<close> is a list of 8-bit characters. Every
  separator the code passes to \<open>strings.Split\<close> and \<open>strings.SplitN\<close> is a one-byte
  string, so the separator is a \<^typ>\<open>char\<close> here.
\<close>

text \<open>\<open>strings.Split(s, sep)\<close>: all pieces between separators; one piece (the empty
  string) for the empty input, never an empty list.\<close>

fun Split :: "string \<Rightarrow> char \<Rightarrow> string list" where
  "Split [] c = [[]]"
| "Split (x # xs) c =
     (if x = c then [] # Split xs c
      else (case Split xs c of [] \<Rightarrow> [[x]] | y # ys \<Rightarrow> (x # y) # ys))"

text \<open>\<open>strings.SplitN(s, sep, n)\<close> for \<open>n \<ge> 0\<close>: at most \<open>n\<close> pieces, the last one
  being the unsplit remainder.\<close>

fun SplitN :: "string \<Rightarrow> char \<Rightarrow> nat \<Rightarrow> string list" where
  "SplitN s c 0 = []"
| "SplitN s c (Suc 0) = [s]"
| "SplitN s c (Suc (Suc n)) =
     (if c \<in> set s
      then takeWhile (\<lambda>x. x \<noteq> c) s # SplitN (tl (dropWhile (\<lambda>x. x \<noteq> c) s)) c (Suc n)
      else [s])"

definition HasPrefix :: "string \<Rightarrow> string \<Rightarrow> bool" where
  "HasPrefix s p = (take (length p) s = p)"

text \<open>\<open>strings.TrimSpace\<close> removes leading and trailing Unicode white space. In UTF-8
  these are the six ASCII space bytes and the encodings of U+0085, U+00A0, U+1680,
  U+2000 to U+200A, U+2028, U+2029, U+202F, U+205F and U+3000.\<close>

definition asciiSpace :: "char \<Rightarrow> bool" where
  "asciiSpace c = (c \<in> set [CHR 0x09, CHR 0x0A, CHR 0x0B, CHR 0x0C, CHR 0x0D, CHR 0x20])"

text \<open>The two-byte and three-byte white-space runes, by their UTF-8 bytes.\<close>

definition space2 :: "char \<Rightarrow> char \<Rightarrow> bool" where
  "space2 a b = (a = CHR 0xC2 \<and> (b = CHR 0x85 \<or> b = CHR 0xA0))"

definition space3 :: "char \<Rightarrow> char \<Rightarrow> char \<Rightarrow> bool" where
  "space3 a b c =
     ((a = CHR 0xE1 \<and> b = CHR 0x9A \<and> c = CHR 0x80) \<or>
      (a = CHR 0xE2 \<and> b = CHR 0x80 \<and>
         (c \<in> set [CHR 0x80, CHR 0x81, CHR 0x82, CHR 0x83, CHR 0x84, CHR 0x85, CHR 0x86,
                    CHR 0x87, CHR 0x88, CHR 0x89, CHR 0x8A, CHR 0xA8, CHR 0xA9, CHR 0xAF])) \<or>
      (a = CHR 0xE2 \<and> b = CHR 0x81 \<and> c = CHR 0x9F) \<or>
      (a = CHR 0xE3 \<and> b = CHR 0x80 \<and> c = CHR 0x80))"

fun TrimLeft :: "string \<Rightarrow> string" where
  "TrimLeft (a # b # c # r) =
     (if asciiSpace a then TrimLeft (b # c # r)
      else if space2 a b then TrimLeft (c # r)
      else if space3 a b c then TrimLeft r
      else a # b # c # r)"
| "TrimLeft [a, b] =
     (if asciiSpace a then TrimLeft [b] else if space2 a b then [] else [a, b])"
| "TrimLeft [a] = (if asciiSpace a then [] else [a])"
| "TrimLeft [] = []"

text \<open>Trimming on the right, on the string read backwards (the last byte first).\<close>

fun TrimRightRev :: "string \<Rightarrow> string" where
  "TrimRightRev (a # b # c # r) =
     (if asciiSpace a then TrimRightRev (b # c # r)
      else if space2 b a then TrimRightRev (c # r)
      else if space3 c b a then TrimRightRev r
      else a # b # c # r)"
| "TrimRightRev [a, b] =
     (if asciiSpace a then TrimRightRev [b] else if space2 b a then [] else [a, b])"
| "TrimRightRev [a] = (if asciiSpace a then [] else [a])"
| "TrimRightRev [] = []"

definition TrimSpace :: "string \<Rightarrow> string" where
  "TrimSpace s = rev (TrimRightRev (rev (TrimLeft s)))"

text \<open>\<open>strconv.Itoa\<close> and \<open>strconv.Atoi\<close> for the 64-bit \<open>int\<close>. \<open>Atoi\<close> accepts an
  optional sign followed by at least one decimal digit and fails on anything else and on
  a value outside the range of \<open>int\<close>; \<open>None\<close> is the non-nil error.\<close>

fun natDigits :: "nat \<Rightarrow> string" where
  "natDigits n =
     (if n < 10 then [''0123456789'' ! n]
      else natDigits (n div 10) @ [''0123456789'' ! (n mod 10)])"

definition Itoa :: "int \<Rightarrow> string" where
  "Itoa i = (if i < 0 then CHR ''-'' # natDigits (nat (- i)) else natDigits (nat i))"

definition isDigit :: "char \<Rightarrow> bool" where
  "isDigit c = (c \<in> set ''0123456789'')"

fun digitsValue :: "nat \<Rightarrow> string \<Rightarrow> nat" where
  "digitsValue n [] = n"
| "digitsValue n (c # cs) = digitsValue (n * 10 + (of_char c - 48)) cs"

definition Atoi :: "string \<Rightarrow> int option" where
  "Atoi s =
     (let neg = (s \<noteq> [] \<and> hd s = CHR ''-'');
          ds = (if s \<noteq> [] \<and> (hd s = CHR ''-'' \<or> hd s = CHR ''+'') then tl s else s)
      in if ds = [] \<or> \<not> list_all isDigit ds then None
         else if neg then
           (if digitsValue 0 ds \<le> 2 ^ 63 then Some (- int (digitsValue 0 ds)) else None)
         else
           (if digitsValue 0 ds < 2 ^ 63 then Some (int (digitsValue 0 ds)) else None))"

section \<open>Value model\<close>

text \<open>An extended community is a slice of \<open>interface{}\<close>; the elements this code
  creates and reads are strings (the type tag) and ints.\<close>

datatype ExtElem = EStr string | EInt int

text \<open>A \<open>*string\<close>: nil, or an address together with the string stored there.\<close>

datatype StringPtr = NilPtr | Ptr nat string

text \<open>\<open>FilterValue\<close> is \<open>interface{}\<close>. The dynamic types the code switches on are
  \<open>int\<close>, \<open>uint8\<close>, \<open>string\<close>, \<open>*string\<close>, \<open>Community\<close> (\<open>[]int\<close>) and
  \<open>ExtCommunity\<close>; \<open>VOther\<close> stands for a value of any other dynamic type, the nil
  interface included.\<close>

datatype FilterValue =
    VInt int
  | VUint8 "8 word"
  | VString string
  | VStringPtr StringPtr
  | VCommunity "int list"
  | VExtCommunity "ExtElem list"
  | VOther

text \<open>A call either panics or returns.\<close>

datatype 'a outcome = Panic | Return 'a

text \<open>\<open>Community.String\<close>: the components joined by colons.\<close>

fun Community_String :: "int list \<Rightarrow> string" where
  "Community_String [] = []"
| "Community_String [v] = Itoa v"
| "Community_String (v # w # r) = Itoa v @ CHR '':'' # Community_String (w # r)"

text \<open>\<open>ExtCommunity.String\<close>: element 0 is asserted to be a string, every later one an
  int; a failed assertion panics.\<close>

fun ExtCommunity_tail :: "ExtElem list \<Rightarrow> string outcome" where
  "ExtCommunity_tail [] = Return []"
| "ExtCommunity_tail (EInt v # r) =
     (case ExtCommunity_tail r of Panic \<Rightarrow> Panic | Return s \<Rightarrow> Return (CHR '':'' # Itoa v @ s))"
| "ExtCommunity_tail (EStr v # r) = Panic"

fun ExtCommunity_String :: "ExtElem list \<Rightarrow> string outcome" where
  "ExtCommunity_String [] = Return []"
| "ExtCommunity_String (EStr t # r) =
     (case ExtCommunity_tail r of Panic \<Rightarrow> Panic | Return s \<Rightarrow> Return (t @ s))"
| "ExtCommunity_String (EInt v # r) = Panic"

section \<open>Filters\<close>

text \<open>\<open>Cardinality\<close> is a Go \<open>int\<close> that the code increments: a 64-bit word, read as
  signed.\<close>

record SearchFilter =
  Cardinality :: "64 word"
  Name :: string
  Value :: FilterValue

text \<open>Compare functions. A single-value type assertion on a value of another dynamic
  type panics.\<close>

fun searchFilterCmpInt :: "FilterValue \<Rightarrow> FilterValue \<Rightarrow> bool outcome" where
  "searchFilterCmpInt (VInt a) (VInt b) = Return (a = b)"
| "searchFilterCmpInt a b = Panic"

fun searchFilterCmpString :: "FilterValue \<Rightarrow> FilterValue \<Rightarrow> bool outcome" where
  "searchFilterCmpString (VStringPtr NilPtr) (VStringPtr NilPtr) = Return True"
| "searchFilterCmpString (VStringPtr NilPtr) (VStringPtr (Ptr q t)) = Return False"
| "searchFilterCmpString (VStringPtr (Ptr p s)) (VStringPtr NilPtr) = Return False"
| "searchFilterCmpString (VStringPtr (Ptr p s)) (VStringPtr (Ptr q t)) = Return (p = q)"
| "searchFilterCmpString (VStringPtr (Ptr p s)) (VString t) = Return (s = t)"
| "searchFilterCmpString (VString s) (VStringPtr (Ptr q t)) = Return (s = t)"
| "searchFilterCmpString (VString s) (VString t) = Return (s = t)"
| "searchFilterCmpString a b = Panic"

fun searchFilterCmpCommunity :: "FilterValue \<Rightarrow> FilterValue \<Rightarrow> bool outcome" where
  "searchFilterCmpCommunity (VCommunity ca) (VCommunity cb) =
     Return (if length ca \<noteq> length cb then False
             else list_all (\<lambda>i. ca ! i = cb ! i) [0..<length ca])"
| "searchFilterCmpCommunity a b = Panic"

fun searchFilterCmpExtCommunity :: "FilterValue \<Rightarrow> FilterValue \<Rightarrow> bool outcome" where
  "searchFilterCmpExtCommunity (VExtCommunity ca) (VExtCommunity cb) =
     Return (if length ca \<noteq> length cb \<or> length ca \<noteq> 3 \<or> length cb \<noteq> 3 then False
             else ca ! 0 = cb ! 0 \<and> ca ! 1 = cb ! 1 \<and> ca ! 2 = cb ! 2)"
| "searchFilterCmpExtCommunity a b = Panic"

text \<open>\<open>SearchFilter.Equal\<close>: the compare function is chosen by the dynamic type of
  the other filter's value alone. The second component of the result is what the call
  writes to the log.\<close>

definition Equal :: "SearchFilter \<Rightarrow> SearchFilter \<Rightarrow> (bool \<times> string list) outcome" where
  "Equal f other =
     (case (case Value other of
              VCommunity c \<Rightarrow> Some searchFilterCmpCommunity
            | VExtCommunity c \<Rightarrow> Some searchFilterCmpExtCommunity
            | VInt i \<Rightarrow> Some searchFilterCmpInt
            | VString s \<Rightarrow> Some searchFilterCmpString
            | VStringPtr p \<Rightarrow> Some searchFilterCmpString
            | _ \<Rightarrow> None) of
        None \<Rightarrow> Return (False, [''Unknown search filter value type''])
      | Some cmp \<Rightarrow> (case cmp (Value f) (Value other) of
                      Panic \<Rightarrow> Panic
                    | Return b \<Rightarrow> Return (b, [])))"

section \<open>Filter groups\<close>

text \<open>
  Groups and sets hold pointers to filters, and \<open>AddFilter\<close> and \<open>MergeProperties\<close>
  write through them. The filters live in a store, a list of filter objects; a
  \<open>*SearchFilter\<close> is a position in it, and a position outside the store is the nil
  pointer, whose dereference panics. Allocation appends to the store. The groups of a
  set are kept by value in the list that is the set; a pointer to a group of a set is
  its position.
\<close>

type_synonym heap = "SearchFilter list"

record SearchFilterGroup =
  Key :: string
  Filters :: "nat list"
  filtersIdx :: "string \<rightharpoonup> nat"

text \<open>The dynamic types \<open>Equal\<close> does not switch on.\<close>

definition unknownValueType :: "FilterValue \<Rightarrow> bool" where
  "unknownValueType v = (case v of VUint8 w \<Rightarrow> True | VOther \<Rightarrow> True | _ \<Rightarrow> False)"

text \<open>The call \<open>f.Equal(other)\<close> on two pointers. \<open>Equal\<close> reads \<open>other.Value\<close> first,
  which panics on the nil pointer; it reads \<open>f.Value\<close> only when it calls the compare
  function, so with a value of \<open>other\<close> of a type it does not switch on it returns false
  also for the nil \<open>f\<close>.\<close>

definition Equal_at :: "heap \<Rightarrow> nat \<Rightarrow> nat \<Rightarrow> (bool \<times> string list) outcome" where
  "Equal_at h f other =
     (if \<not> other < length h then Panic
      else if f < length h then Equal (h ! f) (h ! other)
      else if unknownValueType (Value (h ! other)) then
        Return (False, [''Unknown search filter value type''])
      else Panic)"

fun FindFilter_loop :: "heap \<Rightarrow> nat list \<Rightarrow> nat \<Rightarrow> nat option outcome" where
  "FindFilter_loop h [] filter0 = Return None"
| "FindFilter_loop h (f # fs) filter0 =
     (case Equal_at h f filter0 of
        Panic \<Rightarrow> Panic
      | Return r \<Rightarrow> if fst r then Return (Some f) else FindFilter_loop h fs filter0)"

definition FindFilter :: "heap \<Rightarrow> SearchFilterGroup \<Rightarrow> nat \<Rightarrow> nat option outcome" where
  "FindFilter h g filter0 = FindFilter_loop h (Filters g) filter0"

definition Contains :: "heap \<Rightarrow> SearchFilterGroup \<Rightarrow> nat \<Rightarrow> bool outcome" where
  "Contains h g filter0 =
     (case FindFilter h g filter0 of Panic \<Rightarrow> Panic | Return r \<Rightarrow> Return (r \<noteq> None))"

fun filterValueAsString :: "FilterValue \<Rightarrow> string outcome" where
  "filterValueAsString (VInt v) = Return (Itoa v)"
| "filterValueAsString (VUint8 v) = Return (Itoa (uint v))"
| "filterValueAsString (VStringPtr NilPtr) = Panic"
| "filterValueAsString (VStringPtr (Ptr a v)) = Return v"
| "filterValueAsString (VString v) = Return v"
| "filterValueAsString (VCommunity v) = Return (Community_String v)"
| "filterValueAsString (VExtCommunity v) = ExtCommunity_String v"
| "filterValueAsString VOther = Panic"

text \<open>\<open>GetFilterByValue\<close>: the index gives a position in \<open>Filters\<close>; reading a position
  out of range panics.\<close>

definition GetFilterByValue :: "SearchFilterGroup \<Rightarrow> FilterValue \<Rightarrow> nat option outcome" where
  "GetFilterByValue g v =
     (case filterValueAsString v of
        Panic \<Rightarrow> Panic
      | Return ref \<Rightarrow>
          (case filtersIdx g ref of
             None \<Rightarrow> Return None
           | Some idx \<Rightarrow>
               if idx < length (Filters g) then Return (Some (Filters g ! idx)) else Panic))"

definition AddFilter ::
  "heap \<Rightarrow> SearchFilterGroup \<Rightarrow> nat \<Rightarrow> (heap \<times> SearchFilterGroup) outcome" where
  "AddFilter h g filter0 =
     (if \<not> filter0 < length h then Panic
      else
        (case GetFilterByValue g (Value (h ! filter0)) of
           Panic \<Rightarrow> Panic
         | Return r \<Rightarrow>
             (case (case r of None \<Rightarrow> None
                            | Some q \<Rightarrow> if q < length h then Some q else None) of
                Some presentFilter \<Rightarrow>
                  Return (h[presentFilter :=
                            (h ! presentFilter)\<lparr>Cardinality :=
                               Cardinality (h ! presentFilter) + 1\<rparr>], g)
              | None \<Rightarrow>
                  (let idx = length (Filters g);
                       h1 = h[filter0 := (h ! filter0)\<lparr>Cardinality := 1\<rparr>]
                   in case filterValueAsString (Value (h1 ! filter0)) of
                        Panic \<Rightarrow> Panic
                      | Return ref \<Rightarrow>
                          Return (h1, g\<lparr>Filters := Filters g @ [filter0],
                                       filtersIdx := (filtersIdx g)(ref \<mapsto> idx)\<rparr>)))))"

fun AddFilters ::
  "heap \<Rightarrow> SearchFilterGroup \<Rightarrow> nat list \<Rightarrow> (heap \<times> SearchFilterGroup) outcome" where
  "AddFilters h g [] = Return (h, g)"
| "AddFilters h g (filter0 # filters) =
     (case AddFilter h g filter0 of
        Panic \<Rightarrow> Panic
      | Return r \<Rightarrow> AddFilters (fst r) (snd r) filters)"

fun rebuildIndex_loop ::
  "heap \<Rightarrow> nat list \<Rightarrow> nat \<Rightarrow> (string \<rightharpoonup> nat) \<Rightarrow> (string \<rightharpoonup> nat) outcome" where
  "rebuildIndex_loop h [] i idx = Return idx"
| "rebuildIndex_loop h (filter0 # fs) i idx =
     (if filter0 < length h then
        (case filterValueAsString (Value (h ! filter0)) of
           Panic \<Rightarrow> Panic
         | Return ref \<Rightarrow> rebuildIndex_loop h fs (Suc i) (idx(ref \<mapsto> i)))
      else Panic)"

definition rebuildIndex :: "heap \<Rightarrow> SearchFilterGroup \<Rightarrow> SearchFilterGroup outcome" where
  "rebuildIndex h g =
     (case rebuildIndex_loop h (Filters g) 0 Map.empty of
        Panic \<Rightarrow> Panic
      | Return idx \<Rightarrow> Return (g\<lparr>filtersIdx := idx\<rparr>))"

section \<open>Matching\<close>

text \<open>The \<open>Filterable\<close> interface: six predicates of the matched object.\<close>

record Filterable =
  MatchSourceID :: "string \<Rightarrow> bool"
  MatchASN :: "int \<Rightarrow> bool"
  MatchCommunity :: "int list \<Rightarrow> bool"
  MatchExtCommunity :: "ExtElem list \<Rightarrow> bool"
  MatchLargeCommunity :: "int list \<Rightarrow> bool"
  MatchAddrFamily :: "8 word \<Rightarrow> bool"

definition SearchKeySources :: string where "SearchKeySources = ''sources''"
definition SearchKeyASNS :: string where "SearchKeyASNS = ''asns''"
definition SearchKeyCommunities :: string where "SearchKeyCommunities = ''communities''"
definition SearchKeyExtCommunities :: string where
  "SearchKeyExtCommunities = ''ext_communities''"
definition SearchKeyLargeCommunities :: string where
  "SearchKeyLargeCommunities = ''large_communities''"
definition SearchKeyAddrFamily :: string where "SearchKeyAddrFamily = ''addr_family''"

fun searchFilterMatchSource :: "Filterable \<Rightarrow> FilterValue \<Rightarrow> bool" where
  "searchFilterMatchSource route (VString sourceID) = MatchSourceID route sourceID"
| "searchFilterMatchSource route v = False"

fun searchFilterMatchASN :: "Filterable \<Rightarrow> FilterValue \<Rightarrow> bool" where
  "searchFilterMatchASN route (VInt asn) = MatchASN route asn"
| "searchFilterMatchASN route v = False"

fun searchFilterMatchCommunity :: "Filterable \<Rightarrow> FilterValue \<Rightarrow> bool" where
  "searchFilterMatchCommunity route (VCommunity community) = MatchCommunity route community"
| "searchFilterMatchCommunity route v = False"

fun searchFilterMatchExtCommunity :: "Filterable \<Rightarrow> FilterValue \<Rightarrow> bool" where
  "searchFilterMatchExtCommunity route (VExtCommunity community) =
     MatchExtCommunity route community"
| "searchFilterMatchExtCommunity route v = False"

fun searchFilterMatchLargeCommunity :: "Filterable \<Rightarrow> FilterValue \<Rightarrow> bool" where
  "searchFilterMatchLargeCommunity route (VCommunity community) =
     MatchLargeCommunity route community"
| "searchFilterMatchLargeCommunity route v = False"

fun searchFilterMatchAddrFamily :: "Filterable \<Rightarrow> FilterValue \<Rightarrow> bool" where
  "searchFilterMatchAddrFamily route (VInt family) = MatchAddrFamily route (word_of_int family)"
| "searchFilterMatchAddrFamily route v = False"

definition selectCmpFuncByKey :: "string \<Rightarrow> (Filterable \<Rightarrow> FilterValue \<Rightarrow> bool) option" where
  "selectCmpFuncByKey key =
     (if key = SearchKeySources then Some searchFilterMatchSource
      else if key = SearchKeyASNS then Some searchFilterMatchASN
      else if key = SearchKeyCommunities then Some searchFilterMatchCommunity
      else if key = SearchKeyExtCommunities then Some searchFilterMatchExtCommunity
      else if key = SearchKeyLargeCommunities then Some searchFilterMatchLargeCommunity
      else if key = SearchKeyAddrFamily then Some searchFilterMatchAddrFamily
      else None)"

fun MatchAny_loop ::
  "heap \<Rightarrow> (Filterable \<Rightarrow> FilterValue \<Rightarrow> bool) \<Rightarrow> Filterable \<Rightarrow> nat list \<Rightarrow> bool outcome" where
  "MatchAny_loop h cmp route [] = Return False"
| "MatchAny_loop h cmp route (filter0 # fs) =
     (if filter0 < length h then
        (if cmp route (Value (h ! filter0)) then Return True else MatchAny_loop h cmp route fs)
      else Panic)"

definition MatchAny :: "heap \<Rightarrow> SearchFilterGroup \<Rightarrow> Filterable \<Rightarrow> bool outcome" where
  "MatchAny h g route =
     (if length (Filters g) = 0 then Return True
      else (case selectCmpFuncByKey (Key g) of
              None \<Rightarrow> Return False
            | Some cmp \<Rightarrow> MatchAny_loop h cmp route (Filters g)))"

fun MatchAll_loop ::
  "heap \<Rightarrow> (Filterable \<Rightarrow> FilterValue \<Rightarrow> bool) \<Rightarrow> Filterable \<Rightarrow> nat list \<Rightarrow> bool outcome" where
  "MatchAll_loop h cmp route [] = Return True"
| "MatchAll_loop h cmp route (filter0 # fs) =
     (if filter0 < length h then
        (if \<not> cmp route (Value (h ! filter0)) then Return False
         else MatchAll_loop h cmp route fs)
      else Panic)"

definition MatchAll :: "heap \<Rightarrow> SearchFilterGroup \<Rightarrow> Filterable \<Rightarrow> bool outcome" where
  "MatchAll h g route =
     (if length (Filters g) = 0 then Return True
      else (case selectCmpFuncByKey (Key g) of
              None \<Rightarrow> Return False
            | Some cmp \<Rightarrow> MatchAll_loop h cmp route (Filters g)))"

section \<open>Filter sets\<close>

type_synonym SearchFilters = "SearchFilterGroup list"

definition NewSearchFilters :: SearchFilters where
  "NewSearchFilters =
     [\<lparr>Key = SearchKeySources, Filters = [], filtersIdx = Map.empty\<rparr>,
      \<lparr>Key = SearchKeyASNS, Filters = [], filtersIdx = Map.empty\<rparr>,
      \<lparr>Key = SearchKeyCommunities, Filters = [], filtersIdx = Map.empty\<rparr>,
      \<lparr>Key = SearchKeyExtCommunities, Filters = [], filtersIdx = Map.empty\<rparr>,
      \<lparr>Key = SearchKeyLargeCommunities, Filters = [], filtersIdx = Map.empty\<rparr>,
      \<lparr>Key = SearchKeyAddrFamily, Filters = [], filtersIdx = Map.empty\<rparr>]"

text \<open>\<open>GetGroupByKey\<close>: the position of the group (\<open>None\<close> is the nil group pointer);
  indexing a set with fewer groups panics.\<close>

definition GetGroupByKey :: "SearchFilters \<Rightarrow> string \<Rightarrow> nat option outcome" where
  "GetGroupByKey s key =
     (case (if key = SearchKeySources then Some 0
            else if key = SearchKeyASNS then Some 1
            else if key = SearchKeyCommunities then Some 2
            else if key = SearchKeyExtCommunities then Some 3
            else if key = SearchKeyLargeCommunities then Some 4
            else if key = SearchKeyAddrFamily then Some (5::nat)
            else None) of
        None \<Rightarrow> Return None
      | Some i \<Rightarrow> if i < length s then Return (Some i) else Panic)"

text \<open>One facet of \<open>MatchRoute\<close>: look the group up and run its matcher; a method call
  on the nil group panics.\<close>

definition matchFacet ::
  "(heap \<Rightarrow> SearchFilterGroup \<Rightarrow> Filterable \<Rightarrow> bool outcome) \<Rightarrow>
   heap \<Rightarrow> SearchFilters \<Rightarrow> string \<Rightarrow> Filterable \<Rightarrow> bool outcome" where
  "matchFacet m h s key r =
     (case GetGroupByKey s key of
        Panic \<Rightarrow> Panic
      | Return None \<Rightarrow> Panic
      | Return (Some i) \<Rightarrow> m h (s ! i) r)"

text \<open>\<open>if !x { return false }\<close> followed by the rest of the function body.\<close>

definition orReturnFalse :: "bool outcome \<Rightarrow> bool outcome \<Rightarrow> bool outcome" where
  "orReturnFalse x rest =
     (case x of Panic \<Rightarrow> Panic | Return b \<Rightarrow> if \<not> b then Return False else rest)"

definition MatchRoute :: "heap \<Rightarrow> SearchFilters \<Rightarrow> Filterable \<Rightarrow> bool outcome" where
  "MatchRoute h s r =
     orReturnFalse (matchFacet MatchAny h s SearchKeySources r)
    (orReturnFalse (matchFacet MatchAny h s SearchKeyASNS r)
    (orReturnFalse (matchFacet MatchAll h s SearchKeyCommunities r)
    (orReturnFalse (matchFacet MatchAll h s SearchKeyExtCommunities r)
    (orReturnFalse (matchFacet MatchAll h s SearchKeyLargeCommunities r)
    (orReturnFalse (matchFacet MatchAny h s SearchKeyAddrFamily r)
    (Return True))))))"

text \<open>\<open>Combine\<close>: the inner loop appends the filters of the other group that the
  growing combined group does not contain.\<close>

fun Combine_filters :: "heap \<Rightarrow> SearchFilterGroup \<Rightarrow> nat list \<Rightarrow> SearchFilterGroup outcome" where
  "Combine_filters h combined [] = Return combined"
| "Combine_filters h combined (f # fs) =
     (case Contains h combined f of
        Panic \<Rightarrow> Panic
      | Return b \<Rightarrow>
          if b then Combine_filters h combined fs
          else Combine_filters h (combined\<lparr>Filters := Filters combined @ [f]\<rparr>) fs)"

definition Combine_group ::
  "heap \<Rightarrow> SearchFilterGroup \<Rightarrow> SearchFilterGroup \<Rightarrow> SearchFilterGroup outcome" where
  "Combine_group h group0 otherGroup =
     (case Combine_filters h
             \<lparr>Key = Key group0, Filters = [] @ Filters group0, filtersIdx = Map.empty\<rparr>
             (Filters otherGroup) of
        Panic \<Rightarrow> Panic
      | Return combined \<Rightarrow> rebuildIndex h combined)"

text \<open>The outer loop runs over the groups of \<open>s\<close> and indexes \<open>other\<close> by the same
  position, which panics when \<open>other\<close> has fewer groups.\<close>

fun Combine_loop :: "heap \<Rightarrow> SearchFilters \<Rightarrow> SearchFilters \<Rightarrow> SearchFilters outcome" where
  "Combine_loop h [] other = Return []"
| "Combine_loop h (group0 # s) [] = Panic"
| "Combine_loop h (group0 # s) (otherGroup # other) =
     (case Combine_group h group0 otherGroup of
        Panic \<Rightarrow> Panic
      | Return combined \<Rightarrow>
          (case Combine_loop h s other of
             Panic \<Rightarrow> Panic
           | Return result \<Rightarrow> Return (combined # result)))"

text \<open>\<open>Combine\<close> and \<open>Sub\<close> return the store with the new set; nothing in them writes
  to a filter.\<close>

definition Combine ::
  "heap \<Rightarrow> SearchFilters \<Rightarrow> SearchFilters \<Rightarrow> (heap \<times> SearchFilters) outcome" where
  "Combine h s other =
     (case Combine_loop h s other of Panic \<Rightarrow> Panic | Return result \<Rightarrow> Return (h, result))"

fun Sub_filters ::
  "heap \<Rightarrow> SearchFilterGroup \<Rightarrow> SearchFilterGroup \<Rightarrow> nat list \<Rightarrow> SearchFilterGroup outcome" where
  "Sub_filters h otherGroup diff [] = Return diff"
| "Sub_filters h otherGroup diff (f # fs) =
     (case Contains h otherGroup f of
        Panic \<Rightarrow> Panic
      | Return b \<Rightarrow>
          if b then Sub_filters h otherGroup diff fs
          else Sub_filters h otherGroup (diff\<lparr>Filters := Filters diff @ [f]\<rparr>) fs)"

definition Sub_group ::
  "heap \<Rightarrow> SearchFilterGroup \<Rightarrow> SearchFilterGroup \<Rightarrow> SearchFilterGroup outcome" where
  "Sub_group h group0 otherGroup =
     (case Sub_filters h otherGroup
             \<lparr>Key = Key group0, Filters = [], filtersIdx = Map.empty\<rparr> (Filters group0) of
        Panic \<Rightarrow> Panic
      | Return diff \<Rightarrow> rebuildIndex h diff)"

fun Sub_loop :: "heap \<Rightarrow> SearchFilters \<Rightarrow> SearchFilters \<Rightarrow> SearchFilters outcome" where
  "Sub_loop h [] other = Return []"
| "Sub_loop h (group0 # s) [] = Panic"
| "Sub_loop h (group0 # s) (otherGroup # other) =
     (case Sub_group h group0 otherGroup of
        Panic \<Rightarrow> Panic
      | Return diff \<Rightarrow>
          (case Sub_loop h s other of
             Panic \<Rightarrow> Panic
           | Return result \<Rightarrow> Return (diff # result)))"

definition Sub ::
  "heap \<Rightarrow> SearchFilters \<Rightarrow> SearchFilters \<Rightarrow> (heap \<times> SearchFilters) outcome" where
  "Sub h s other =
     (case Sub_loop h s other of Panic \<Rightarrow> Panic | Return result \<Rightarrow> Return (h, result))"

text \<open>\<open>MergeProperties\<close> writes the name, then the cardinality, of the filter found in
  the other group into the filter of \<open>s\<close>; the groups themselves are not written.\<close>

fun MergeProperties_filters :: "heap \<Rightarrow> SearchFilterGroup \<Rightarrow> nat list \<Rightarrow> heap outcome" where
  "MergeProperties_filters h otherGroup [] = Return h"
| "MergeProperties_filters h otherGroup (filter0 # fs) =
     (case FindFilter h otherGroup filter0 of
        Panic \<Rightarrow> Panic
      | Return None \<Rightarrow> MergeProperties_filters h otherGroup fs
      | Return (Some otherFilter) \<Rightarrow>
          (if filter0 < length h \<and> otherFilter < length h then
             (let h1 = h[filter0 := (h ! filter0)\<lparr>Name := Name (h ! otherFilter)\<rparr>];
                  h2 = h1[filter0 := (h1 ! filter0)\<lparr>Cardinality :=
                                       Cardinality (h1 ! otherFilter)\<rparr>]
              in MergeProperties_filters h2 otherGroup fs)
           else Panic))"

fun MergeProperties :: "heap \<Rightarrow> SearchFilters \<Rightarrow> SearchFilters \<Rightarrow> heap outcome" where
  "MergeProperties h [] other = Return h"
| "MergeProperties h (group0 # s) [] = Panic"
| "MergeProperties h (group0 # s) (otherGroup # other) =
     (case MergeProperties_filters h otherGroup (Filters group0) of
        Panic \<Rightarrow> Panic
      | Return h1 \<Rightarrow> MergeProperties h1 s other)"

section \<open>Filters from tokens\<close>

text \<open>A Go \<open>error\<close> is its message.\<close>

type_synonym error = string

text \<open>\<open>parseCommunityValue\<close> and \<open>parseExtCommunityValue\<close> are not part of the files at
  hand; \<open>parseCommunityFilterText\<close> takes them as parameters. A parser returns an
  error or the fields of the filter it creates.\<close>

type_synonym FilterQueryParser = "string \<Rightarrow> error + SearchFilter"

definition parseCommunityFilterText ::
  "FilterQueryParser \<Rightarrow> FilterQueryParser \<Rightarrow> string \<Rightarrow> error + (string \<times> SearchFilter)" where
  "parseCommunityFilterText parseExtCommunityValue parseCommunityValue text =
     (let tokens = Split text (CHR '':'')
      in if length tokens < 2 then Inl ''BGP community incomplete''
         else if Atoi (tokens ! 0) = None then
           (case parseExtCommunityValue text of
              Inl err \<Rightarrow> Inl err
            | Inr filter0 \<Rightarrow> Inr (SearchKeyExtCommunities, filter0))
         else
           (case parseCommunityValue text of
              Inl err \<Rightarrow> Inl ''BGP community incomplete''
            | Inr filter0 \<Rightarrow>
                if length tokens = 2 then Inr (SearchKeyCommunities, filter0)
                else Inr (SearchKeyLargeCommunities, filter0)))"

text \<open>The loop of \<open>FiltersFromTokens\<close>. The filter a parser returns is allocated at the
  end of the store. An error ends the call without a set.\<close>

fun FiltersFromTokens_loop ::
  "FilterQueryParser \<Rightarrow> FilterQueryParser \<Rightarrow> heap \<Rightarrow> SearchFilters \<Rightarrow> string list \<Rightarrow>
   (heap \<times> (error + SearchFilters)) outcome" where
  "FiltersFromTokens_loop pe pc h queryFilters [] = Return (h, Inr queryFilters)"
| "FiltersFromTokens_loop pe pc h queryFilters (v # tokens) =
     (if HasPrefix v ''#'' then
        (case parseCommunityFilterText pe pc (drop 1 v) of
           Inl err \<Rightarrow> Return (h, Inl err)
         | Inr kf \<Rightarrow>
             (case GetGroupByKey queryFilters (fst kf) of
                Panic \<Rightarrow> Panic
              | Return None \<Rightarrow> Panic
              | Return (Some i) \<Rightarrow>
                  (case AddFilter (h @ [snd kf]) (queryFilters ! i) (length h) of
                     Panic \<Rightarrow> Panic
                   | Return r \<Rightarrow>
                       FiltersFromTokens_loop pe pc (fst r) (queryFilters[i := snd r]) tokens)))
      else FiltersFromTokens_loop pe pc h queryFilters tokens)"

definition FiltersFromTokens ::
  "FilterQueryParser \<Rightarrow> FilterQueryParser \<Rightarrow> heap \<Rightarrow> string list \<Rightarrow>
   (heap \<times> (error + SearchFilters)) outcome" where
  "FiltersFromTokens pe pc h tokens = FiltersFromTokens_loop pe pc h NewSearchFilters tokens"

section \<open>Community configuration parser\<close>

definition ErrInvalidCommunity :: "string \<Rightarrow> error" where
  "ErrInvalidCommunity s = ''invalid community: '' @ s"

text \<open>\<open>BGPCommunityMap.Set\<close> is not part of the files at hand: the parsers take it as
  the parameter \<open>Set\<close>, a function from the directory, the community and the label to
  the updated directory. The second component of a result is what the call writes to
  the log, one entry per \<open>log.Println\<close> or \<open>log.Printf\<close>.\<close>

fun parseAndMergeCommunities_loop ::
  "('m \<Rightarrow> string \<Rightarrow> string \<Rightarrow> 'm) \<Rightarrow> 'm \<Rightarrow> string list \<Rightarrow> string list \<Rightarrow> 'm \<times> string list" where
  "parseAndMergeCommunities_loop Set communities lg [] = (communities, lg)"
| "parseAndMergeCommunities_loop Set communities lg (line # lines) =
     (let kv = SplitN line (CHR ''='') 2
      in if length kv \<noteq> 2 then
           parseAndMergeCommunities_loop Set communities
             (lg @ [''Skipping malformed BGP community: '' @ line]) lines
         else
           parseAndMergeCommunities_loop Set
             (Set communities (TrimSpace (kv ! 0)) (TrimSpace (kv ! 1))) lg lines)"

definition parseAndMergeCommunities ::
  "('m \<Rightarrow> string \<Rightarrow> string \<Rightarrow> 'm) \<Rightarrow> 'm \<Rightarrow> string \<Rightarrow> 'm \<times> string list" where
  "parseAndMergeCommunities Set communities body =
     parseAndMergeCommunities_loop Set communities [] (Split body (CHR 0x0A))"

text \<open>The inner loop of \<open>parseRejectionCandidateCommunities\<close> over the comma-separated
  communities of one line; \<open>n\<close> is the running counter.\<close>

fun parseRejectionCandidateCommunities_values ::
  "('m \<Rightarrow> string \<Rightarrow> string \<Rightarrow> 'm) \<Rightarrow> 'm \<Rightarrow> int \<Rightarrow> string list \<Rightarrow> 'm \<times> int" where
  "parseRejectionCandidateCommunities_values Set comms n [] = (comms, n)"
| "parseRejectionCandidateCommunities_values Set comms n (c # cs) =
     parseRejectionCandidateCommunities_values Set
       (Set comms c (''reject-candidate-'' @ Itoa (n + 1))) (n + 1) cs"

fun parseRejectionCandidateCommunities_loop ::
  "('m \<Rightarrow> string \<Rightarrow> string \<Rightarrow> 'm) \<Rightarrow> 'm \<Rightarrow> int \<Rightarrow> string list \<Rightarrow> string list \<Rightarrow>
   'm \<times> string list" where
  "parseRejectionCandidateCommunities_loop Set comms n lg [] = (comms, lg)"
| "parseRejectionCandidateCommunities_loop Set comms n lg (line # lines) =
     (let kv = SplitN line (CHR ''='') 2
      in if length kv \<noteq> 2 then
           parseRejectionCandidateCommunities_loop Set comms n
             (lg @ [''Skipping malformed reject candidate BGP community: '' @ line]) lines
         else
           (let key = TrimSpace (kv ! 0)
            in if key \<noteq> ''communities'' then
                 parseRejectionCandidateCommunities_loop Set comms n
                   (lg @ [''unexpected key '' @ [CHR 0x27] @ key @ [CHR 0x27] @
                          '' in section '' @ [CHR 0x27] @ ''rejection_candidates'' @ [CHR 0x27]])
                   lines
               else
                 (let r = parseRejectionCandidateCommunities_values Set comms n
                            (Split (TrimSpace (kv ! 1)) (CHR '',''))
                  in parseRejectionCandidateCommunities_loop Set (fst r) (snd r) lg lines)))"

text \<open>The result is the directory, the returned error (\<open>None\<close> is nil) and the log.\<close>

definition parseRejectionCandidateCommunities ::
  "('m \<Rightarrow> string \<Rightarrow> string \<Rightarrow> 'm) \<Rightarrow> 'm \<Rightarrow> string \<Rightarrow> 'm \<times> error option \<times> string list" where
  "parseRejectionCandidateCommunities Set comms s =
     (let r = parseRejectionCandidateCommunities_loop Set comms 0 [] (Split s (CHR 0x0A))
      in (fst r, None, snd r))"

text \<open>A \<open>BGPCommunityRange\<close> is a slice of \<open>interface{}\<close> whose elements are the pair of
  tag strings of an extended community or what \<open>decoders.IntListFromStrings\<close> makes
  of the two bounds of a range. \<open>IntListFromStrings\<close> is not part of the files at hand
  and is a parameter; \<open>'r\<close> is the type of its result.\<close>

datatype 'r RangePart = StrRange "string list" | IntRange 'r

fun parseRangeCommunity_parts :: "string list \<Rightarrow> string list list option" where
  "parseRangeCommunity_parts [] = Some []"
| "parseRangeCommunity_parts (t # ts) =
     (let values = SplitN t (CHR ''-'') 2
      in if length values = 0 then None
         else (case parseRangeCommunity_parts ts of
                 None \<Rightarrow> None
               | Some parts \<Rightarrow>
                   Some ((if length values = 1 then [values ! 0, values ! 0]
                          else [values ! 0, values ! 1]) # parts)))"

definition parseRangeCommunity ::
  "(string list \<Rightarrow> 'r) \<Rightarrow> string \<Rightarrow> error + 'r RangePart list" where
  "parseRangeCommunity IntListFromStrings s =
     (let tokens = Split s (CHR '':'')
      in if length tokens < 2 then Inl (ErrInvalidCommunity s)
         else
           (case parseRangeCommunity_parts tokens of
              None \<Rightarrow> Inl (ErrInvalidCommunity s)
            | Some parts \<Rightarrow>
                if length parts \<le> 1 then Inl (ErrInvalidCommunity s)
                else
                  (let isExt = (Atoi (parts ! 0 ! 0) = None)
                   in if isExt \<and> length parts \<noteq> 3 then Inl (ErrInvalidCommunity s)
                      else if isExt then
                        Inr [StrRange [parts ! 0 ! 0, parts ! 0 ! 0],
                             IntRange (IntListFromStrings (parts ! 1)),
                             IntRange (IntListFromStrings (parts ! 2))]
                      else Inr (map (\<lambda>p. IntRange (IntListFromStrings p)) parts))))"

text \<open>\<open>BGPCommunityRange.Type\<close> and its three constants are not part of the files at
  hand either; \<open>Type\<close> is a parameter, and \<open>BGPCommunityTypeOther\<close> stands for any
  result that is none of the three constants, which the switch ignores.\<close>

datatype BGPCommunityType =
  BGPCommunityTypeStd | BGPCommunityTypeLarge | BGPCommunityTypeExt | BGPCommunityTypeOther

record 'r BGPCommunitiesSet =
  Standard :: "'r RangePart list list"
  Large :: "'r RangePart list list"
  Extended :: "'r RangePart list list"

fun parseRangeCommunitiesSet_loop ::
  "('r RangePart list \<Rightarrow> BGPCommunityType) \<Rightarrow> (string list \<Rightarrow> 'r) \<Rightarrow>
   'r RangePart list list \<Rightarrow> 'r RangePart list list \<Rightarrow> 'r RangePart list list \<Rightarrow>
   string list \<Rightarrow> error + 'r BGPCommunitiesSet" where
  "parseRangeCommunitiesSet_loop Type IntListFromStrings comms large ext [] =
     Inr \<lparr>Standard = comms, Large = large, Extended = ext\<rparr>"
| "parseRangeCommunitiesSet_loop Type IntListFromStrings comms large ext (l # lines) =
     (let line = TrimSpace l
      in if line = [] then
           parseRangeCommunitiesSet_loop Type IntListFromStrings comms large ext lines
         else if HasPrefix line ''#'' then
           parseRangeCommunitiesSet_loop Type IntListFromStrings comms large ext lines
         else
           (case parseRangeCommunity IntListFromStrings line of
              Inl err \<Rightarrow> Inl err
            | Inr comm \<Rightarrow>
                (case Type comm of
                   BGPCommunityTypeStd \<Rightarrow>
                     parseRangeCommunitiesSet_loop Type IntListFromStrings
                       (comms @ [comm]) large ext lines
                 | BGPCommunityTypeLarge \<Rightarrow>
                     parseRangeCommunitiesSet_loop Type IntListFromStrings
                       comms (large @ [comm]) ext lines
                 | BGPCommunityTypeExt \<Rightarrow>
                     parseRangeCommunitiesSet_loop Type IntListFromStrings
                       comms large (ext @ [comm]) lines
                 | BGPCommunityTypeOther \<Rightarrow>
                     parseRangeCommunitiesSet_loop Type IntListFromStrings
                       comms large ext lines)))"

definition parseRangeCommunitiesSet ::
  "('r RangePart list \<Rightarrow> BGPCommunityType) \<Rightarrow> (string list \<Rightarrow> 'r) \<Rightarrow> string \<Rightarrow>
   error + 'r BGPCommunitiesSet" where
  "parseRangeCommunitiesSet Type IntListFromStrings body =
     parseRangeCommunitiesSet_loop Type IntListFromStrings [] [] [] (Split body (CHR 0x0A))"

section \<open>Predicates of the statements\<close>

text \<open>A filter is in the store and its value has the canonical string \<open>ref\<close>.\<close>

definition hasCanonicalString :: "heap \<Rightarrow> string \<Rightarrow> nat \<Rightarrow> bool" where
  "hasCanonicalString h ref p =
     (p < length h \<and> filterValueAsString (Value (h ! p)) = Return ref)"

text \<open>The index invariant of a group: every filter of the group is in the store and the
  index maps the canonical string of its value to its position.\<close>

definition indexOK :: "heap \<Rightarrow> SearchFilterGroup \<Rightarrow> bool" where
  "indexOK h g =
     list_all (\<lambda>i. Filters g ! i < length h \<and>
                   (case filterValueAsString (Value (h ! (Filters g ! i))) of
                      Panic \<Rightarrow> False
                    | Return s \<Rightarrow> filtersIdx g s = Some i))
       [0..<length (Filters g)]"

text \<open>How many filters of a group have a value with the canonical string \<open>ref\<close>.\<close>

definition countCanonical :: "heap \<Rightarrow> string \<Rightarrow> SearchFilterGroup \<Rightarrow> nat" where
  "countCanonical h ref g = length (filter (hasCanonicalString h ref) (Filters g))"

text \<open>Every filter pointer of a group is in the store.\<close>

definition validFilters :: "heap \<Rightarrow> SearchFilterGroup \<Rightarrow> bool" where
  "validFilters h g = list_all (\<lambda>p. p < length h) (Filters g)"

text \<open>The kinds of filter value of the six facets: source identifiers are strings or
  pointers to strings, ASNs and address families ints, communities and large communities
  \<open>Community\<close> values, extended communities triples of a tag and two ints. Any other
  value has no kind.\<close>

datatype ValueKind = KindString | KindInt | KindCommunity | KindExtCommunity | KindNone

fun valueKind :: "FilterValue \<Rightarrow> ValueKind" where
  "valueKind (VInt i) = KindInt"
| "valueKind (VString s) = KindString"
| "valueKind (VStringPtr (Ptr a s)) = KindString"
| "valueKind (VCommunity c) = KindCommunity"
| "valueKind (VExtCommunity [EStr t, EInt a, EInt b]) = KindExtCommunity"
| "valueKind v = KindNone"

definition facetKinds :: "ValueKind list" where
  "facetKinds = [KindString, KindInt, KindCommunity, KindExtCommunity, KindCommunity, KindInt]"

definition facetKeys :: "string list" where
  "facetKeys = [SearchKeySources, SearchKeyASNS, SearchKeyCommunities,
                SearchKeyExtCommunities, SearchKeyLargeCommunities, SearchKeyAddrFamily]"

definition filtersOfKind :: "heap \<Rightarrow> ValueKind \<Rightarrow> nat list \<Rightarrow> bool" where
  "filtersOfKind h k fs = list_all (\<lambda>p. p < length h \<and> valueKind (Value (h ! p)) = k) fs"

text \<open>A filter set over the six facets: six groups with the six keys in the fixed
  order, each holding filters of the store with values of the kind of its facet.\<close>

definition wellFormed :: "heap \<Rightarrow> SearchFilters \<Rightarrow> bool" where
  "wellFormed h s =
     (length s = 6 \<and> map Key s = facetKeys \<and>
      list_all (\<lambda>i. filtersOfKind h (facetKinds ! i) (Filters (s ! i))) [0..<6])"

text \<open>Two filters of the store have equal values: \<open>p.Equal(q)\<close> returns true.\<close>

definition valueEqual :: "heap \<Rightarrow> nat \<Rightarrow> nat \<Rightarrow> bool" where
  "valueEqual h p q =
     (p < length h \<and> q < length h \<and>
      (case Equal (h ! p) (h ! q) of Panic \<Rightarrow> False | Return r \<Rightarrow> fst r))"

text \<open>The value a filter stands for: a pointer to a string stands for the string it
  points to, every other value for itself.\<close>

fun filterContent :: "FilterValue \<Rightarrow> FilterValue" where
  "filterContent (VStringPtr (Ptr a s)) = VString s"
| "filterContent v = v"

definition valueOf :: "heap \<Rightarrow> nat \<Rightarrow> FilterValue" where
  "valueOf h p = filterContent (Value (h ! p))"

text \<open>The string pointers of the store are pool values, as \<open>searchFilterCmpString\<close>
  assumes: two of them have the same address exactly when they point to equal
  strings.\<close>

definition interned :: "heap \<Rightarrow> bool" where
  "interned h =
     list_all (\<lambda>f. list_all (\<lambda>g.
         (case Value f of
            VStringPtr (Ptr a s) \<Rightarrow>
              (case Value g of VStringPtr (Ptr b t) \<Rightarrow> (a = b) = (s = t) | _ \<Rightarrow> True)
          | _ \<Rightarrow> True)) h) h"

text \<open>Union by value in the words of the specification: all filters of the first list,
  followed by every filter of the second whose value is not already present.\<close>

fun appendAbsent :: "(nat \<Rightarrow> FilterValue) \<Rightarrow> nat list \<Rightarrow> nat list \<Rightarrow> nat list" where
  "appendAbsent v acc [] = acc"
| "appendAbsent v acc (f # fs) =
     (if v f \<in> v ` set acc then appendAbsent v acc fs else appendAbsent v (acc @ [f]) fs)"

section \<open>Example objects\<close>

text \<open>A store with three community filters, two of them with the same value, and an
  ASN filter; two filter sets over it; and a route of AS64512 that carries the community
  65000:100.\<close>

definition exampleStore :: heap where
  "exampleStore =
     [\<lparr>Cardinality = 5, Name = ''left'', Value = VCommunity [65000, 100]\<rparr>,
      \<lparr>Cardinality = 9, Name = ''right'', Value = VCommunity [65000, 100]\<rparr>,
      \<lparr>Cardinality = 2, Name = ''other'', Value = VCommunity [65000, 200]\<rparr>,
      \<lparr>Cardinality = 1, Name = ''AS64512'', Value = VInt 64512\<rparr>]"

definition exampleSetA :: SearchFilters where
  "exampleSetA =
     [\<lparr>Key = SearchKeySources, Filters = [], filtersIdx = Map.empty\<rparr>,
      \<lparr>Key = SearchKeyASNS, Filters = [3], filtersIdx = [''64512'' \<mapsto> 0]\<rparr>,
      \<lparr>Key = SearchKeyCommunities, Filters = [0], filtersIdx = [''65000:100'' \<mapsto> 0]\<rparr>,
      \<lparr>Key = SearchKeyExtCommunities, Filters = [], filtersIdx = Map.empty\<rparr>,
      \<lparr>Key = SearchKeyLargeCommunities, Filters = [], filtersIdx = Map.empty\<rparr>,
      \<lparr>Key = SearchKeyAddrFamily, Filters = [], filtersIdx = Map.empty\<rparr>]"

definition exampleSetB :: SearchFilters where
  "exampleSetB =
     [\<lparr>Key = SearchKeySources, Filters = [], filtersIdx = Map.empty\<rparr>,
      \<lparr>Key = SearchKeyASNS, Filters = [], filtersIdx = Map.empty\<rparr>,
      \<lparr>Key = SearchKeyCommunities, Filters = [1, 2],
        filtersIdx = [''65000:100'' \<mapsto> 0, ''65000:200'' \<mapsto> 1]\<rparr>,
      \<lparr>Key = SearchKeyExtCommunities, Filters = [], filtersIdx = Map.empty\<rparr>,
      \<lparr>Key = SearchKeyLargeCommunities, Filters = [], filtersIdx = Map.empty\<rparr>,
      \<lparr>Key = SearchKeyAddrFamily, Filters = [], filtersIdx = Map.empty\<rparr>]"

definition exampleRoute :: Filterable where
  "exampleRoute =
     \<lparr>MatchSourceID = (\<lambda>s. False), MatchASN = (\<lambda>a. a = 64512),
      MatchCommunity = (\<lambda>c. c = [65000, 100]), MatchExtCommunity = (\<lambda>c. False),
      MatchLargeCommunity = (\<lambda>c. False), MatchAddrFamily = (\<lambda>f. False)\<rparr>"

section \<open>Equality of filters\<close>

text \<open>
  C1 (as amended). When the value of the other filter is of none of the types \<open>Equal\<close>
  switches on (\<open>Community\<close>, \<open>ExtCommunity\<close>, \<open>int\<close>, \<open>string\<close>, \<open>*string\<close>),
  \<open>f.Equal(other)\<close> returns false and logs the anomaly, and does not panic, whatever
  the kind of the value of \<open>f\<close>.
\<close>

theorem Equal_other_of_unknown_type:
  "unknownValueType (Value other) \<Longrightarrow>
   Equal f other = Return (False, [''Unknown search filter value type''])"
  by (cases "Value other") (simp_all add: Equal_def unknownValueType_def)

theorem Equal_other_of_unknown_type_witness:
  "unknownValueType (Value \<lparr>Cardinality = 1, Name = ''IPv4'', Value = VUint8 4\<rparr>) \<and>
   Equal \<lparr>Cardinality = 1, Name = ''AS64512'', Value = VInt 64512\<rparr>
         \<lparr>Cardinality = 1, Name = ''IPv4'', Value = VUint8 4\<rparr> =
     Return (False, [''Unknown search filter value type''])"
  using Equal_other_of_unknown_type
    [of "\<lparr>Cardinality = 1, Name = ''IPv4'', Value = VUint8 4\<rparr>"
        "\<lparr>Cardinality = 1, Name = ''AS64512'', Value = VInt 64512\<rparr>"]
  by (simp add: unknownValueType_def)

text \<open>
  C1 as stated fails: comparing an ASN filter with a community filter selects
  \<open>searchFilterCmpCommunity\<close>, whose type assertion on the int panics.
\<close>

theorem Equal_cross_kind_counterexample:
  "Equal \<lparr>Cardinality = 1, Name = ''AS64512'', Value = VInt 64512\<rparr>
         \<lparr>Cardinality = 1, Name = ''65000:100'', Value = VCommunity [65000, 100]\<rparr> = Panic"
  by (simp add: Equal_def)

lemmas ex_defs = exampleStore_def exampleSetA_def exampleSetB_def exampleRoute_def

section \<open>Matching a route\<close>

lemmas SearchKey_defs =
  SearchKeySources_def SearchKeyASNS_def SearchKeyCommunities_def
  SearchKeyExtCommunities_def SearchKeyLargeCommunities_def SearchKeyAddrFamily_def

lemma MatchAny_loop_returns:
  "list_all (\<lambda>p. p < length h) fs \<Longrightarrow> \<exists>b. MatchAny_loop h cmp r fs = Return b"
  by (induction fs) auto

lemma MatchAll_loop_returns:
  "list_all (\<lambda>p. p < length h) fs \<Longrightarrow> \<exists>b. MatchAll_loop h cmp r fs = Return b"
  by (induction fs) auto

lemma MatchAny_returns: "validFilters h g \<Longrightarrow> \<exists>b. MatchAny h g r = Return b"
  using MatchAny_loop_returns [of h "Filters g"]
  by (auto simp: MatchAny_def validFilters_def split: option.splits)

lemma MatchAll_returns: "validFilters h g \<Longrightarrow> \<exists>b. MatchAll h g r = Return b"
  using MatchAll_loop_returns [of h "Filters g"]
  by (auto simp: MatchAll_def validFilters_def split: option.splits)

lemma orReturnFalse_Return:
  "orReturnFalse (Return b) rest = (if b then rest else Return False)"
  by (simp add: orReturnFalse_def)

lemma MatchRoute_unfold:
  "length s = 6 \<Longrightarrow>
   MatchRoute h s r =
     orReturnFalse (MatchAny h (s ! 0) r)
    (orReturnFalse (MatchAny h (s ! 1) r)
    (orReturnFalse (MatchAll h (s ! 2) r)
    (orReturnFalse (MatchAll h (s ! 3) r)
    (orReturnFalse (MatchAll h (s ! 4) r)
    (orReturnFalse (MatchAny h (s ! 5) r)
    (Return True))))))"
  by (simp add: MatchRoute_def matchFacet_def GetGroupByKey_def SearchKey_defs)

text \<open>
  C5. For a filter set of six groups, \<open>MatchRoute\<close> is the conjunction of \<open>MatchAny\<close>
  on the groups at positions 0 (sources) and 1 (ASNs), \<open>MatchAll\<close> on those at
  positions 2, 3 and 4 (communities, extended and large communities) and \<open>MatchAny\<close>
  on the group at position 5 (address family): when every filter pointer is in the
  store, all six facets return and the result is their conjunction; the first facet
  that returns false decides the result, whatever the later groups hold; and on a group
  without filters both \<open>MatchAny\<close> and \<open>MatchAll\<close> return true for every route.
\<close>

theorem MatchRoute_facets:
  assumes "length s = 6"
  shows "(list_all (validFilters h) s \<longrightarrow>
            (\<exists>b0 b1 b2 b3 b4 b5.
               MatchAny h (s ! 0) r = Return b0 \<and> MatchAny h (s ! 1) r = Return b1 \<and>
               MatchAll h (s ! 2) r = Return b2 \<and> MatchAll h (s ! 3) r = Return b3 \<and>
               MatchAll h (s ! 4) r = Return b4 \<and> MatchAny h (s ! 5) r = Return b5 \<and>
               MatchRoute h s r = Return (b0 \<and> b1 \<and> b2 \<and> b3 \<and> b4 \<and> b5))) \<and>
         (MatchAny h (s ! 0) r = Return False \<longrightarrow> MatchRoute h s r = Return False) \<and>
         (MatchAny h (s ! 0) r = Return True \<and> MatchAny h (s ! 1) r = Return False \<longrightarrow>
            MatchRoute h s r = Return False) \<and>
         (MatchAny h (s ! 0) r = Return True \<and> MatchAny h (s ! 1) r = Return True \<and>
          MatchAll h (s ! 2) r = Return False \<longrightarrow> MatchRoute h s r = Return False) \<and>
         (MatchAny h (s ! 0) r = Return True \<and> MatchAny h (s ! 1) r = Return True \<and>
          MatchAll h (s ! 2) r = Return True \<and> MatchAll h (s ! 3) r = Return False \<longrightarrow>
            MatchRoute h s r = Return False) \<and>
         (MatchAny h (s ! 0) r = Return True \<and> MatchAny h (s ! 1) r = Return True \<and>
          MatchAll h (s ! 2) r = Return True \<and> MatchAll h (s ! 3) r = Return True \<and>
          MatchAll h (s ! 4) r = Return False \<longrightarrow> MatchRoute h s r = Return False) \<and>
         (\<forall>g. Filters g = [] \<longrightarrow>
               MatchAny h g r = Return True \<and> MatchAll h g r = Return True)"
proof -
  note u = MatchRoute_unfold [OF assms, of h r]
  have total: "list_all (validFilters h) s \<longrightarrow>
            (\<exists>b0 b1 b2 b3 b4 b5.
               MatchAny h (s ! 0) r = Return b0 \<and> MatchAny h (s ! 1) r = Return b1 \<and>
               MatchAll h (s ! 2) r = Return b2 \<and> MatchAll h (s ! 3) r = Return b3 \<and>
               MatchAll h (s ! 4) r = Return b4 \<and> MatchAny h (s ! 5) r = Return b5 \<and>
               MatchRoute h s r = Return (b0 \<and> b1 \<and> b2 \<and> b3 \<and> b4 \<and> b5))"
  proof
    assume v: "list_all (validFilters h) s"
    have vi: "\<And>i. i < 6 \<Longrightarrow> validFilters h (s ! i)"
      using v assms by (simp add: list_all_length)
    obtain b0 where b0: "MatchAny h (s ! 0) r = Return b0" using MatchAny_returns vi by force
    obtain b1 where b1: "MatchAny h (s ! 1) r = Return b1" using MatchAny_returns vi by force
    obtain b2 where b2: "MatchAll h (s ! 2) r = Return b2" using MatchAll_returns vi by force
    obtain b3 where b3: "MatchAll h (s ! 3) r = Return b3" using MatchAll_returns vi by force
    obtain b4 where b4: "MatchAll h (s ! 4) r = Return b4" using MatchAll_returns vi by force
    obtain b5 where b5: "MatchAny h (s ! 5) r = Return b5" using MatchAny_returns vi by force
    have "MatchRoute h s r = Return (b0 \<and> b1 \<and> b2 \<and> b3 \<and> b4 \<and> b5)"
      unfolding u b0 b1 b2 b3 b4 b5 orReturnFalse_Return by auto
    with b0 b1 b2 b3 b4 b5 show "\<exists>b0 b1 b2 b3 b4 b5.
               MatchAny h (s ! 0) r = Return b0 \<and> MatchAny h (s ! 1) r = Return b1 \<and>
               MatchAll h (s ! 2) r = Return b2 \<and> MatchAll h (s ! 3) r = Return b3 \<and>
               MatchAll h (s ! 4) r = Return b4 \<and> MatchAny h (s ! 5) r = Return b5 \<and>
               MatchRoute h s r = Return (b0 \<and> b1 \<and> b2 \<and> b3 \<and> b4 \<and> b5)"
      by blast
  qed
  have sc: "(MatchAny h (s ! 0) r = Return False \<longrightarrow> MatchRoute h s r = Return False) \<and>
         (MatchAny h (s ! 0) r = Return True \<and> MatchAny h (s ! 1) r = Return False \<longrightarrow>
            MatchRoute h s r = Return False) \<and>
         (MatchAny h (s ! 0) r = Return True \<and> MatchAny h (s ! 1) r = Return True \<and>
          MatchAll h (s ! 2) r = Return False \<longrightarrow> MatchRoute h s r = Return False) \<and>
         (MatchAny h (s ! 0) r = Return True \<and> MatchAny h (s ! 1) r = Return True \<and>
          MatchAll h (s ! 2) r = Return True \<and> MatchAll h (s ! 3) r = Return False \<longrightarrow>
            MatchRoute h s r = Return False) \<and>
         (MatchAny h (s ! 0) r = Return True \<and> MatchAny h (s ! 1) r = Return True \<and>
          MatchAll h (s ! 2) r = Return True \<and> MatchAll h (s ! 3) r = Return True \<and>
          MatchAll h (s ! 4) r = Return False \<longrightarrow> MatchRoute h s r = Return False)"
    by (simp add: u orReturnFalse_def)
  have empty: "\<forall>g. Filters g = [] \<longrightarrow>
               MatchAny h g r = Return True \<and> MatchAll h g r = Return True"
    by (simp add: MatchAny_def MatchAll_def)
  from total sc empty show ?thesis by blast
qed

theorem MatchRoute_facets_witness:
  "MatchRoute exampleStore exampleSetA exampleRoute = Return True \<and>
   MatchRoute exampleStore exampleSetB exampleRoute = Return False"
  using MatchRoute_facets [of exampleSetA exampleStore exampleRoute]
        MatchRoute_facets [of exampleSetB exampleStore exampleRoute]
  by (simp add: ex_defs MatchRoute_def matchFacet_def GetGroupByKey_def SearchKey_defs
        orReturnFalse_def MatchAny_def MatchAll_def selectCmpFuncByKey_def validFilters_def)

section \<open>Adding filters to a group\<close>

lemma indexOK_nth:
  "indexOK h g \<Longrightarrow> i < length (Filters g) \<Longrightarrow>
   Filters g ! i < length h \<and>
   (\<exists>s. filterValueAsString (Value (h ! (Filters g ! i))) = Return s \<and> filtersIdx g s = Some i)"
proof -
  assume a: "indexOK h g" "i < length (Filters g)"
  then have b: "Filters g ! i < length h \<and>
      (case filterValueAsString (Value (h ! (Filters g ! i))) of
         Panic \<Rightarrow> False | Return s \<Rightarrow> filtersIdx g s = Some i)"
    by (simp add: indexOK_def list_all_iff)
  then show ?thesis
    by (cases "filterValueAsString (Value (h ! (Filters g ! i)))") auto
qed

lemma AddFilter_present:
  assumes "filtersIdx g ref = Some i" "i < length (Filters g)" "Filters g ! i < length h"
    and "hasCanonicalString h ref p"
  shows "AddFilter h g p =
         Return (h[Filters g ! i := (h ! (Filters g ! i))
                     \<lparr>Cardinality := Cardinality (h ! (Filters g ! i)) + 1\<rparr>], g)"
  using assms by (simp add: AddFilter_def GetFilterByValue_def hasCanonicalString_def)

lemma AddFilter_absent:
  assumes "filtersIdx g ref = None" "hasCanonicalString h ref p"
  shows "AddFilter h g p =
         Return (h[p := (h ! p)\<lparr>Cardinality := 1\<rparr>],
                 g\<lparr>Filters := Filters g @ [p],
                   filtersIdx := (filtersIdx g)(ref \<mapsto> length (Filters g))\<rparr>)"
  using assms by (simp add: AddFilter_def GetFilterByValue_def hasCanonicalString_def Let_def)

lemma AddFilters_present:
  assumes "filtersIdx g ref = Some i" "i < length (Filters g)" "Filters g ! i < length h"
    and "list_all (hasCanonicalString h ref) ps"
  shows "AddFilters h g ps =
         Return (h[Filters g ! i := (h ! (Filters g ! i))
                     \<lparr>Cardinality := Cardinality (h ! (Filters g ! i)) + of_nat (length ps)\<rparr>], g)"
  using assms
proof (induction ps arbitrary: h)
  case Nil
  then show ?case by simp
next
  case (Cons p ps)
  let ?q = "Filters g ! i"
  let ?h1 = "h[?q := (h ! ?q)\<lparr>Cardinality := Cardinality (h ! ?q) + 1\<rparr>]"
  have step: "AddFilter h g p = Return (?h1, g)"
    using Cons.prems by (intro AddFilter_present) auto
  have rest: "list_all (hasCanonicalString ?h1 ref) ps"
    using Cons.prems(3,4)
    by (auto simp: list_all_iff hasCanonicalString_def nth_list_update)
  have "AddFilters ?h1 g ps =
        Return (?h1[?q := (?h1 ! ?q)\<lparr>Cardinality := Cardinality (?h1 ! ?q) + of_nat (length ps)\<rparr>], g)"
    using Cons.IH [of ?h1] Cons.prems(1-3) rest by simp
  then show ?case
    using Cons.prems(3) by (simp add: step ac_simps)
qed

lemma sint_card: "n < 2 ^ 63 \<Longrightarrow> sint (of_nat n :: 64 word) = int n"
proof -
  assume "n < 2 ^ 63"
  then have "int n < 2 ^ 63" by (metis of_nat_less_iff of_nat_numeral of_nat_power)
  then show ?thesis
    by (simp add: signed_of_nat signed_take_bit_int_eq_self)
qed


lemma hasCanonicalString_card_update:
  "hasCanonicalString (h[q := (h ! q)\<lparr>Cardinality := c\<rparr>]) ref p = hasCanonicalString h ref p"
  by (cases "q < length h"; cases "p = q") (auto simp: hasCanonicalString_def)

lemma indexOK_unique:
  assumes "indexOK h g" "i < length (Filters g)" "j < length (Filters g)"
    and "hasCanonicalString h ref (Filters g ! i)" "hasCanonicalString h ref (Filters g ! j)"
  shows "i = j"
  using indexOK_nth [OF assms(1,2)] indexOK_nth [OF assms(1,3)] assms(4,5)
  by (auto simp: hasCanonicalString_def)

lemma indexOK_absent:
  assumes "indexOK h g" "filtersIdx g ref = None" "p \<in> set (Filters g)"
  shows "\<not> hasCanonicalString h ref p"
proof
  assume c: "hasCanonicalString h ref p"
  from assms(3) obtain i where i: "i < length (Filters g)" "Filters g ! i = p"
    by (auto simp: in_set_conv_nth)
  from indexOK_nth [OF assms(1) i(1)] c i(2) assms(2) show False
    by (auto simp: hasCanonicalString_def)
qed

lemma countCanonical_present:
  assumes "indexOK h g" "i < length (Filters g)" "hasCanonicalString h ref (Filters g ! i)"
  shows "countCanonical h ref g = 1"
proof -
  have "{k. k < length (Filters g) \<and> hasCanonicalString h ref (Filters g ! k)} = {i}"
    using assms indexOK_unique [OF assms(1)] by blast
  then show ?thesis
    by (simp add: countCanonical_def length_filter_conv_card)
qed

text \<open>
  C4. Let the index of the group be consistent with its filters, and let \<open>filters\<close> be
  N \<ge> 1 filters whose values all have the canonical string \<open>ref\<close>. If the index has
  no entry for \<open>ref\<close>, the first \<open>AddFilter\<close> appends the first filter with cardinality
  1, whatever cardinality it came with, and records its position; after all N calls the
  group has exactly one filter with that canonical string (it had none before), and its
  cardinality is N (as a 64-bit int, so read as N when N < 2^63). If a filter of the
  group already has that canonical string, the N calls leave the group as it is, add N
  to the cardinality of that filter, and the group still has exactly one such filter.
\<close>

theorem AddFilter_dedup_count:
  assumes "indexOK h g" and "filters \<noteq> []" and "list_all (hasCanonicalString h ref) filters"
  shows "(filtersIdx g ref = None \<longrightarrow>
            AddFilter h g (hd filters) =
              Return (h[hd filters := (h ! hd filters)\<lparr>Cardinality := 1\<rparr>],
                      g\<lparr>Filters := Filters g @ [hd filters],
                        filtersIdx := (filtersIdx g)(ref \<mapsto> length (Filters g))\<rparr>) \<and>
            AddFilters h g filters =
              Return (h[hd filters := (h ! hd filters)
                          \<lparr>Cardinality := of_nat (length filters)\<rparr>],
                      g\<lparr>Filters := Filters g @ [hd filters],
                        filtersIdx := (filtersIdx g)(ref \<mapsto> length (Filters g))\<rparr>) \<and>
            countCanonical h ref g = 0 \<and>
            countCanonical
              (h[hd filters := (h ! hd filters)\<lparr>Cardinality := of_nat (length filters)\<rparr>])
              ref (g\<lparr>Filters := Filters g @ [hd filters],
                     filtersIdx := (filtersIdx g)(ref \<mapsto> length (Filters g))\<rparr>) = 1 \<and>
            (length filters < 2 ^ 63 \<longrightarrow>
               sint (of_nat (length filters) :: 64 word) = int (length filters))) \<and>
         (\<forall>i < length (Filters g). hasCanonicalString h ref (Filters g ! i) \<longrightarrow>
            AddFilters h g filters =
              Return (h[Filters g ! i := (h ! (Filters g ! i))
                          \<lparr>Cardinality := Cardinality (h ! (Filters g ! i)) +
                                          of_nat (length filters)\<rparr>], g) \<and>
            countCanonical
              (h[Filters g ! i := (h ! (Filters g ! i))
                          \<lparr>Cardinality := Cardinality (h ! (Filters g ! i)) +
                                          of_nat (length filters)\<rparr>]) ref g = 1)"
proof (intro conjI impI allI)
  obtain p ps where f: "filters = p # ps" using assms(2) by (cases filters) auto
  have hp: "hasCanonicalString h ref p" and hps: "list_all (hasCanonicalString h ref) ps"
    using assms(3) f by auto
  let ?h1 = "h[p := (h ! p)\<lparr>Cardinality := 1\<rparr>]"
  let ?g1 = "g\<lparr>Filters := Filters g @ [p],
               filtersIdx := (filtersIdx g)(ref \<mapsto> length (Filters g))\<rparr>"
  let ?hN = "h[p := (h ! p)\<lparr>Cardinality := of_nat (length filters)\<rparr>]"
  assume none: "filtersIdx g ref = None"
  have step: "AddFilter h g p = Return (?h1, ?g1)"
    using AddFilter_absent [OF none hp] .
  then show "AddFilter h g (hd filters) =
              Return (h[hd filters := (h ! hd filters)\<lparr>Cardinality := 1\<rparr>],
                      g\<lparr>Filters := Filters g @ [hd filters],
                        filtersIdx := (filtersIdx g)(ref \<mapsto> length (Filters g))\<rparr>)"
    by (simp add: f)
  have plt: "p < length h" using hp by (simp add: hasCanonicalString_def)
  have rest: "AddFilters ?h1 ?g1 ps =
        Return (?h1[Filters ?g1 ! length (Filters g) := (?h1 ! (Filters ?g1 ! length (Filters g)))
                     \<lparr>Cardinality := Cardinality (?h1 ! (Filters ?g1 ! length (Filters g))) +
                                     of_nat (length ps)\<rparr>], ?g1)"
    using hps plt
    by (intro AddFilters_present [where ref = ref])
       (auto simp: list_all_iff hasCanonicalString_card_update)
  show "AddFilters h g filters =
              Return (h[hd filters := (h ! hd filters)
                          \<lparr>Cardinality := of_nat (length filters)\<rparr>],
                      g\<lparr>Filters := Filters g @ [hd filters],
                        filtersIdx := (filtersIdx g)(ref \<mapsto> length (Filters g))\<rparr>)"
    using plt by (simp add: f step rest)
  have no: "\<And>x. x \<in> set (Filters g) \<Longrightarrow> \<not> hasCanonicalString h ref x"
    using indexOK_absent [OF assms(1) none] by blast
  then show "countCanonical h ref g = 0"
    by (simp add: countCanonical_def)
  show "countCanonical
              (h[hd filters := (h ! hd filters)\<lparr>Cardinality := of_nat (length filters)\<rparr>])
              ref (g\<lparr>Filters := Filters g @ [hd filters],
                     filtersIdx := (filtersIdx g)(ref \<mapsto> length (Filters g))\<rparr>) = 1"
    using no hp by (simp add: countCanonical_def f hasCanonicalString_card_update)
next
  assume "length filters < 2 ^ 63"
  then show "sint (of_nat (length filters) :: 64 word) = int (length filters)"
    by (rule sint_card)
next
  fix i
  assume i: "i < length (Filters g)" and c: "hasCanonicalString h ref (Filters g ! i)"
  from indexOK_nth [OF assms(1) i] c
  have idx: "filtersIdx g ref = Some i" and v: "Filters g ! i < length h"
    by (auto simp: hasCanonicalString_def)
  show "AddFilters h g filters =
              Return (h[Filters g ! i := (h ! (Filters g ! i))
                          \<lparr>Cardinality := Cardinality (h ! (Filters g ! i)) +
                                          of_nat (length filters)\<rparr>], g)"
    using AddFilters_present [OF idx i v assms(3)] .
  have "indexOK (h[Filters g ! i := (h ! (Filters g ! i))
                          \<lparr>Cardinality := Cardinality (h ! (Filters g ! i)) +
                                          of_nat (length filters)\<rparr>]) g"
    using assms(1) v
    by (auto simp: indexOK_def list_all_iff nth_list_update)
  then show "countCanonical
              (h[Filters g ! i := (h ! (Filters g ! i))
                          \<lparr>Cardinality := Cardinality (h ! (Filters g ! i)) +
                                          of_nat (length filters)\<rparr>]) ref g = 1"
    using i c by (intro countCanonical_present [where i = i])
                 (auto simp: hasCanonicalString_card_update)
qed

theorem AddFilter_dedup_count_witness:
  "\<exists>h' g'. AddFilters exampleStore (NewSearchFilters ! 2) [0, 1] = Return (h', g') \<and>
     Filters g' = [0] \<and> Cardinality (h' ! 0) = 2 \<and> Cardinality (h' ! 1) = 9 \<and>
     filtersIdx g' ''65000:100'' = Some 0"
proof -
  have ok: "indexOK exampleStore (NewSearchFilters ! 2)"
    by (simp add: indexOK_def NewSearchFilters_def)
  have ne: "[0, 1] \<noteq> ([] :: nat list)" by simp
  have c: "list_all (hasCanonicalString exampleStore ''65000:100'') [0, 1]"
    by (simp add: hasCanonicalString_def exampleStore_def Itoa_def)
  have n: "filtersIdx (NewSearchFilters ! 2) ''65000:100'' = None"
    by (simp add: NewSearchFilters_def)
  from AddFilter_dedup_count [OF ok ne c] n
  have "AddFilters exampleStore (NewSearchFilters ! 2) [0, 1] =
          Return (exampleStore[hd [0, 1] := (exampleStore ! hd [0, 1])
                      \<lparr>Cardinality := of_nat (length [0 :: nat, 1])\<rparr>],
                  (NewSearchFilters ! 2)\<lparr>Filters := Filters (NewSearchFilters ! 2) @ [hd [0, 1]],
                     filtersIdx := (filtersIdx (NewSearchFilters ! 2))
                        (''65000:100'' \<mapsto> length (Filters (NewSearchFilters ! 2)))\<rparr>)"
    by blast
  then show ?thesis
    by (simp add: exampleStore_def NewSearchFilters_def)
qed

section \<open>Union and difference of filter sets\<close>

text \<open>\<open>Equal\<close> decides equality of the values of two filters of one kind.\<close>

lemma Equal_at_valid:
  "f < length h \<Longrightarrow> other < length h \<Longrightarrow> Equal_at h f other = Equal (h ! f) (h ! other)"
  by (simp add: Equal_at_def)

lemma cmpCommunity_eq:
  "(if length ca \<noteq> length cb then False else list_all (\<lambda>i. ca ! i = cb ! i) [0..<length ca])
   = (ca = cb)"
proof (cases "length ca = length cb")
  case True
  have "list_all (\<lambda>i. ca ! i = cb ! i) [0..<length ca] = (\<forall>i<length ca. ca ! i = cb ! i)"
    by (auto simp: list_all_iff)
  with True show ?thesis
    using list_eq_iff_nth_eq [of ca cb] by simp
next
  case False
  then show ?thesis by auto
qed

lemma searchFilterCmpCommunity_eq:
  "searchFilterCmpCommunity (VCommunity ca) (VCommunity cb) = Return (ca = cb)"
  using cmpCommunity_eq [of ca cb] by simp

lemma kind_forms:
  "valueKind v = KindInt \<Longrightarrow> \<exists>i. v = VInt i"
  "valueKind v = KindString \<Longrightarrow> (\<exists>s. v = VString s) \<or> (\<exists>a s. v = VStringPtr (Ptr a s))"
  "valueKind v = KindCommunity \<Longrightarrow> \<exists>c. v = VCommunity c"
  "valueKind v = KindExtCommunity \<Longrightarrow> \<exists>t a b. v = VExtCommunity [EStr t, EInt a, EInt b]"
  by (cases v rule: valueKind.cases; simp)+

lemma Equal_is_value_equality:
  assumes "valueKind (Value f) = k" "valueKind (Value g) = k" "k \<noteq> KindNone"
    and "\<And>a s b t. Value f = VStringPtr (Ptr a s) \<Longrightarrow> Value g = VStringPtr (Ptr b t) \<Longrightarrow>
                    (a = b) = (s = t)"
  shows "Equal f g = Return (filterContent (Value f) = filterContent (Value g), [])"
proof (cases k)
  case KindString
  have kf: "valueKind (Value f) = KindString" and kg: "valueKind (Value g) = KindString"
    using assms(1,2) KindString by simp_all
  from kind_forms(2) [OF kf] kind_forms(2) [OF kg]
  consider (ss) s t where "Value f = VString s" "Value g = VString t"
    | (sp) s b t where "Value f = VString s" "Value g = VStringPtr (Ptr b t)"
    | (ps) a s t where "Value f = VStringPtr (Ptr a s)" "Value g = VString t"
    | (pp) a s b t where "Value f = VStringPtr (Ptr a s)" "Value g = VStringPtr (Ptr b t)"
    by auto
  then show ?thesis
  proof cases
    case ss then show ?thesis by (simp add: Equal_def)
  next
    case sp then show ?thesis by (simp add: Equal_def)
  next
    case ps then show ?thesis by (simp add: Equal_def)
  next
    case pp
    with assms(4) [OF pp] show ?thesis by (simp add: Equal_def)
  qed
next
  case KindInt
  have kf: "valueKind (Value f) = KindInt" and kg: "valueKind (Value g) = KindInt"
    using assms(1,2) KindInt by simp_all
  from kind_forms(1) [OF kf] kind_forms(1) [OF kg]
  obtain i j where "Value f = VInt i" "Value g = VInt j" by auto
  then show ?thesis by (simp add: Equal_def)
next
  case KindCommunity
  have kf: "valueKind (Value f) = KindCommunity" and kg: "valueKind (Value g) = KindCommunity"
    using assms(1,2) KindCommunity by simp_all
  from kind_forms(3) [OF kf] kind_forms(3) [OF kg]
  obtain c d where "Value f = VCommunity c" "Value g = VCommunity d" by auto
  then show ?thesis
    by (simp add: Equal_def searchFilterCmpCommunity_eq del: searchFilterCmpCommunity.simps)
next
  case KindExtCommunity
  have kf: "valueKind (Value f) = KindExtCommunity" and kg: "valueKind (Value g) = KindExtCommunity"
    using assms(1,2) KindExtCommunity by simp_all
  from kind_forms(4) [OF kf] kind_forms(4) [OF kg]
  obtain t a b t' a' b' where
    "Value f = VExtCommunity [EStr t, EInt a, EInt b]"
    "Value g = VExtCommunity [EStr t', EInt a', EInt b']" by auto
  then show ?thesis by (simp add: Equal_def)
next
  case KindNone
  with assms(3) show ?thesis by simp
qed

lemma interned_pair:
  assumes "interned h" "p < length h" "q < length h"
    and "Value (h ! p) = VStringPtr (Ptr a s)" "Value (h ! q) = VStringPtr (Ptr b t)"
  shows "(a = b) = (s = t)"
proof -
  have "h ! p \<in> set h" "h ! q \<in> set h" using assms(2,3) by simp_all
  with assms(1) have
    "(case Value (h ! p) of
        VStringPtr (Ptr a s) \<Rightarrow>
          (case Value (h ! q) of VStringPtr (Ptr b t) \<Rightarrow> (a = b) = (s = t) | _ \<Rightarrow> True)
      | _ \<Rightarrow> True)"
    unfolding interned_def list_all_iff by blast
  with assms(4,5) show ?thesis by simp
qed

lemma valueEqual_iff:
  assumes "interned h" "p < length h" "q < length h"
    and "valueKind (Value (h ! p)) = k" "valueKind (Value (h ! q)) = k" "k \<noteq> KindNone"
  shows "valueEqual h p q = (valueOf h p = valueOf h q)"
  using Equal_is_value_equality [OF assms(4,5,6)] interned_pair [OF assms(1,2,3)] assms(2,3)
  by (simp add: valueEqual_def valueOf_def)

text \<open>The canonical string determines the value among the values of one kind.\<close>

lemma digit_char_value: "d < 10 \<Longrightarrow> of_char (''0123456789'' ! d) - (48::nat) = d"
proof -
  assume "d < 10"
  then have "d = 0 \<or> d = 1 \<or> d = 2 \<or> d = 3 \<or> d = 4 \<or> d = 5 \<or> d = 6 \<or> d = 7 \<or> d = 8 \<or> d = 9"
    by arith
  then show ?thesis by (elim disjE) simp_all
qed

lemma digit_char_isDigit: "d < 10 \<Longrightarrow> ''0123456789'' ! d \<in> set ''0123456789''"
  by (rule nth_mem) simp

lemma digitsValue_snoc:
  "digitsValue n (xs @ [c]) = digitsValue n xs * 10 + (of_char c - 48)"
  by (induction xs arbitrary: n) simp_all

lemma natDigits_value: "digitsValue 0 (natDigits n) = n"
proof (induction n rule: natDigits.induct)
  case (1 n)
  show ?case
  proof (cases "n < 10")
    case True
    then show ?thesis
      using digit_char_value [of n] by (subst natDigits.simps) simp
  next
    case False
    have "n mod 10 < 10" by simp
    then have "of_char (''0123456789'' ! (n mod 10)) - (48::nat) = n mod 10"
      by (rule digit_char_value)
    with False 1 show ?thesis
      by (subst natDigits.simps) (simp add: digitsValue_snoc)
  qed
qed

lemma natDigits_digits: "set (natDigits n) \<subseteq> set ''0123456789''"
proof (induction n rule: natDigits.induct)
  case (1 n)
  show ?case
  proof (cases "n < 10")
    case True
    then show ?thesis
      using digit_char_isDigit [of n] by (subst natDigits.simps) simp
  next
    case False
    have "n mod 10 < 10" by simp
    from digit_char_isDigit [OF this] False 1 show ?thesis
      by (subst natDigits.simps) simp
  qed
qed

lemma natDigits_not_Nil: "natDigits n \<noteq> []"
  by (subst natDigits.simps) simp

lemma natDigits_inj: "natDigits n = natDigits m \<Longrightarrow> n = m"
  using natDigits_value [of n] natDigits_value [of m] by simp

lemma Itoa_not_Nil: "Itoa i \<noteq> []"
  by (simp add: Itoa_def natDigits_not_Nil del: natDigits.simps)

lemma Itoa_no_colon: "CHR '':'' \<notin> set (Itoa i)"
  using natDigits_digits [of "nat i"] natDigits_digits [of "nat (- i)"]
  by (auto simp: Itoa_def simp del: natDigits.simps)

lemma Itoa_inj: "Itoa i = Itoa j \<Longrightarrow> i = j"
proof -
  assume e: "Itoa i = Itoa j"
  have nd: "hd (natDigits n) \<noteq> CHR ''-''" for n
    using natDigits_digits [of n] natDigits_not_Nil [of n]
    by (cases "natDigits n") auto
  have neg: "hd (Itoa k) = CHR ''-''" if "k < 0" for k
    using that by (simp add: Itoa_def del: natDigits.simps)
  have pos: "hd (Itoa k) \<noteq> CHR ''-''" if "\<not> k < 0" for k
    using that nd [of "nat k"] by (simp add: Itoa_def del: natDigits.simps)
  show ?thesis
  proof (cases "i < 0")
    case True
    have j: "j < 0" using neg [OF True] pos [of j] e by auto
    from e True j have "natDigits (nat (- i)) = natDigits (nat (- j))"
      by (simp add: Itoa_def del: natDigits.simps)
    then have "nat (- i) = nat (- j)" by (rule natDigits_inj)
    with True j show ?thesis by arith
  next
    case False
    have j: "\<not> j < 0" using pos [OF False] neg [of j] e by auto
    from e False j have "natDigits (nat i) = natDigits (nat j)"
      by (simp add: Itoa_def del: natDigits.simps)
    then have "nat i = nat j" by (rule natDigits_inj)
    with False j show ?thesis by arith
  qed
qed

lemma takeWhile_sep: "c \<notin> set a \<Longrightarrow> takeWhile (\<lambda>x. x \<noteq> c) (a @ c # x) = a"
  by (induction a) auto

lemma dropWhile_sep: "c \<notin> set a \<Longrightarrow> dropWhile (\<lambda>x. x \<noteq> c) (a @ c # x) = c # x"
  by (induction a) auto

lemma sep_unique:
  assumes "c \<notin> set a" "c \<notin> set a'" "a @ c # x = a' @ c # x'"
  shows "a = a' \<and> x = x'"
  using takeWhile_sep [OF assms(1), of x] takeWhile_sep [OF assms(2), of x']
        dropWhile_sep [OF assms(1), of x] dropWhile_sep [OF assms(2), of x'] assms(3)
  by simp

lemma Community_String_Nil: "Community_String c = [] \<Longrightarrow> c = []"
  by (cases c rule: Community_String.cases) (simp_all add: Itoa_not_Nil)

lemma Community_String_inj: "Community_String c = Community_String d \<Longrightarrow> c = d"
proof (induction c arbitrary: d rule: Community_String.induct)
  case 1
  then have "Community_String d = []" by simp
  then show ?case using Community_String_Nil [of d] by simp
next
  case (2 v)
  show ?case
  proof (cases d rule: Community_String.cases)
    case 1
    with 2 show ?thesis by (simp add: Itoa_not_Nil)
  next
    case (2 w)
    with "2.prems" show ?thesis by (auto dest: Itoa_inj)
  next
    case (3 w x r)
    with "2.prems" have "CHR '':'' \<in> set (Itoa v)" by simp
    then show ?thesis using Itoa_no_colon by simp
  qed
next
  case (3 v w r)
  show ?case
  proof (cases d rule: Community_String.cases)
    case 1
    with "3.prems" show ?thesis by (simp add: Itoa_not_Nil)
  next
    case (2 u)
    with "3.prems" have "Itoa u = Itoa v @ CHR '':'' # Community_String (w # r)" by simp
    then have "CHR '':'' \<in> set (Itoa u)" by simp
    then show ?thesis using Itoa_no_colon by simp
  next
    case (3 v' w' r')
    with "3.prems" have
      "Itoa v @ CHR '':'' # Community_String (w # r) = Itoa v' @ CHR '':'' # Community_String (w' # r')"
      by simp
    from sep_unique [OF Itoa_no_colon Itoa_no_colon this]
    have "Itoa v = Itoa v'" "Community_String (w # r) = Community_String (w' # r')" by simp_all
    with "3.IH" [of "w' # r'"] 3 Itoa_inj [of v v'] show ?thesis by simp
  qed
qed

lemma ExtCommunity_String_triple:
  "ExtCommunity_String [EStr t, EInt a, EInt b] =
     Return (t @ CHR '':'' # Itoa a @ CHR '':'' # Itoa b)"
  by simp

lemma triple_string_inj:
  assumes "t @ CHR '':'' # Itoa a @ CHR '':'' # Itoa b = t' @ CHR '':'' # Itoa a' @ CHR '':'' # Itoa b'"
  shows "t = t' \<and> a = a' \<and> b = b'"
proof -
  have r: "rev (Itoa b) @ CHR '':'' # (rev (Itoa a) @ CHR '':'' # rev t) =
           rev (Itoa b') @ CHR '':'' # (rev (Itoa a') @ CHR '':'' # rev t')"
    using arg_cong [OF assms, of rev] by simp
  have nc: "CHR '':'' \<notin> set (rev (Itoa i))" for i using Itoa_no_colon by simp
  from sep_unique [OF nc nc r]
  have 1: "rev (Itoa b) = rev (Itoa b')"
    and 2: "rev (Itoa a) @ CHR '':'' # rev t = rev (Itoa a') @ CHR '':'' # rev t'"
    by simp_all
  from sep_unique [OF nc nc 2] have 3: "rev (Itoa a) = rev (Itoa a')" and 4: "rev t = rev t'"
    by simp_all
  from 1 3 4 Itoa_inj [of a a'] Itoa_inj [of b b'] show ?thesis by simp
qed

lemma canonical_string_inj:
  assumes "valueKind v = k" "valueKind w = k" "k \<noteq> KindNone"
    and "filterValueAsString v = filterValueAsString w"
  shows "filterContent v = filterContent w"
proof (cases k)
  case KindString
  have kv: "valueKind v = KindString" and kw: "valueKind w = KindString"
    using assms(1,2) KindString by simp_all
  from kind_forms(2) [OF kv] kind_forms(2) [OF kw] assms(4) show ?thesis by auto
next
  case KindInt
  have kv: "valueKind v = KindInt" and kw: "valueKind w = KindInt"
    using assms(1,2) KindInt by simp_all
  from kind_forms(1) [OF kv] kind_forms(1) [OF kw] assms(4) show ?thesis
    by (auto dest: Itoa_inj)
next
  case KindCommunity
  have kv: "valueKind v = KindCommunity" and kw: "valueKind w = KindCommunity"
    using assms(1,2) KindCommunity by simp_all
  from kind_forms(3) [OF kv] kind_forms(3) [OF kw] assms(4) show ?thesis
    by (auto dest: Community_String_inj)
next
  case KindExtCommunity
  have kv: "valueKind v = KindExtCommunity" and kw: "valueKind w = KindExtCommunity"
    using assms(1,2) KindExtCommunity by simp_all
  from kind_forms(4) [OF kv] kind_forms(4) [OF kw] obtain t a b t' a' b' where
    f: "v = VExtCommunity [EStr t, EInt a, EInt b]" "w = VExtCommunity [EStr t', EInt a', EInt b']"
    by auto
  with assms(4) have
    "t @ CHR '':'' # Itoa a @ CHR '':'' # Itoa b = t' @ CHR '':'' # Itoa a' @ CHR '':'' # Itoa b'"
    by simp
  from triple_string_inj [OF this] f show ?thesis by simp
next
  case KindNone
  with assms(3) show ?thesis by simp
qed

lemma canonical_string_content:
  assumes "filterContent v = filterContent w" "valueKind v = k" "valueKind w = k" "k \<noteq> KindNone"
  shows "filterValueAsString v = filterValueAsString w"
proof (cases k)
  case KindString
  have kv: "valueKind v = KindString" and kw: "valueKind w = KindString"
    using assms(2,3) KindString by simp_all
  from kind_forms(2) [OF kv] kind_forms(2) [OF kw] assms(1) show ?thesis by auto
next
  case KindInt
  have kv: "valueKind v = KindInt" and kw: "valueKind w = KindInt"
    using assms(2,3) KindInt by simp_all
  from kind_forms(1) [OF kv] kind_forms(1) [OF kw] assms(1) show ?thesis by auto
next
  case KindCommunity
  have kv: "valueKind v = KindCommunity" and kw: "valueKind w = KindCommunity"
    using assms(2,3) KindCommunity by simp_all
  from kind_forms(3) [OF kv] kind_forms(3) [OF kw] assms(1) show ?thesis by auto
next
  case KindExtCommunity
  have kv: "valueKind v = KindExtCommunity" and kw: "valueKind w = KindExtCommunity"
    using assms(2,3) KindExtCommunity by simp_all
  from kind_forms(4) [OF kv] kind_forms(4) [OF kw] assms(1) show ?thesis by auto
next
  case KindNone
  with assms(4) show ?thesis by simp
qed

lemma kind_stringable:
  "valueKind v \<noteq> KindNone \<Longrightarrow> \<exists>s. filterValueAsString v = Return s"
  by (cases v rule: valueKind.cases) auto

lemma rebuildIndex_loop_keeps:
  "rebuildIndex_loop h fs n idx = Return idx' \<Longrightarrow> idx s \<noteq> None \<Longrightarrow> idx' s \<noteq> None"
proof (induction fs arbitrary: n idx)
  case Nil
  then show ?case by simp
next
  case (Cons p fs)
  from Cons.prems(1) obtain ref where
    "rebuildIndex_loop h fs (Suc n) (idx(ref \<mapsto> n)) = Return idx'"
    by (auto split: if_splits outcome.splits)
  from Cons.IH [OF this] Cons.prems(2) show ?case by simp
qed

lemma rebuildIndex_loop_returns:
  assumes "list_all (\<lambda>p. \<exists>s. hasCanonicalString h s p) fs"
  shows "\<exists>idx'. rebuildIndex_loop h fs n idx = Return idx' \<and>
           (\<forall>s k. idx' s = Some k \<longrightarrow>
                  idx s = Some k \<or> (n \<le> k \<and> k < n + length fs \<and> hasCanonicalString h s (fs ! (k - n)))) \<and>
           (\<forall>j<length fs. \<exists>s k. hasCanonicalString h s (fs ! j) \<and> idx' s = Some k \<and>
                  n + j \<le> k \<and> k < n + length fs)"
  using assms
proof (induction fs arbitrary: n idx)
  case Nil
  then show ?case by simp
next
  case (Cons p fs)
  from Cons.prems obtain ref where ref: "hasCanonicalString h ref p"
    and rest: "list_all (\<lambda>p. \<exists>s. hasCanonicalString h s p) fs"
    by auto
  from Cons.IH [OF rest, of "Suc n" "idx(ref \<mapsto> n)"] obtain idx' where
    r: "rebuildIndex_loop h fs (Suc n) (idx(ref \<mapsto> n)) = Return idx'"
    and a: "\<And>s k. idx' s = Some k \<Longrightarrow>
                  (idx(ref \<mapsto> n)) s = Some k \<or>
                  (Suc n \<le> k \<and> k < Suc n + length fs \<and> hasCanonicalString h s (fs ! (k - Suc n)))"
    and b: "\<And>j. j < length fs \<Longrightarrow> \<exists>s k. hasCanonicalString h s (fs ! j) \<and> idx' s = Some k \<and>
                  Suc n + j \<le> k \<and> k < Suc n + length fs"
    by blast
  have 1: "rebuildIndex_loop h (p # fs) n idx = Return idx'"
    using ref r by (simp add: hasCanonicalString_def)
  have 2: "idx s = Some k \<or> (n \<le> k \<and> k < n + length (p # fs) \<and>
             hasCanonicalString h s ((p # fs) ! (k - n)))" if "idx' s = Some k" for s k
  proof -
    from a [OF that] show ?thesis
    proof
      assume "(idx(ref \<mapsto> n)) s = Some k"
      then show ?thesis using ref by (cases "s = ref") auto
    next
      assume c: "Suc n \<le> k \<and> k < Suc n + length fs \<and> hasCanonicalString h s (fs ! (k - Suc n))"
      then have "k - n = Suc (k - Suc n)" by arith
      with c show ?thesis by auto
    qed
  qed
  have 3: "\<exists>s k. hasCanonicalString h s ((p # fs) ! j) \<and> idx' s = Some k \<and>
                  n + j \<le> k \<and> k < n + length (p # fs)" if "j < length (p # fs)" for j
  proof (cases j)
    case 0
    show ?thesis
    proof (cases "idx' ref")
      case None
      have "idx' ref \<noteq> None"
        using rebuildIndex_loop_keeps [OF r, of ref] by simp
      with r None show ?thesis by simp
    next
      case (Some k)
      from a [OF Some] have "n \<le> k \<and> k < n + length (p # fs)"
        by (auto split: if_splits)
      with Some ref 0 show ?thesis by auto
    qed
  next
    case (Suc j')
    with that have "j' < length fs" by simp
    from b [OF this] Suc show ?thesis by auto
  qed
  from 1 2 3 show ?case by blast
qed

lemma filtersOfKind_append:
  "filtersOfKind h k (xs @ ys) = (filtersOfKind h k xs \<and> filtersOfKind h k ys)"
  by (simp add: filtersOfKind_def)

lemma filtersOfKind_mem:
  "filtersOfKind h k fs \<Longrightarrow> p \<in> set fs \<Longrightarrow> p < length h \<and> valueKind (Value (h ! p)) = k"
  by (simp add: filtersOfKind_def list_all_iff)

lemma filtersOfKind_stringable:
  assumes "k \<noteq> KindNone" "filtersOfKind h k fs"
  shows "list_all (\<lambda>p. \<exists>s. hasCanonicalString h s p) fs"
  using assms kind_stringable
  by (fastforce simp: filtersOfKind_def list_all_iff hasCanonicalString_def)

lemma filtersOfKind_filter:
  "filtersOfKind h k fs \<Longrightarrow> filtersOfKind h k (filter P fs)"
  by (simp add: filtersOfKind_def list_all_iff)

lemma wellFormed_nth:
  "wellFormed h s \<Longrightarrow> i < 6 \<Longrightarrow>
   filtersOfKind h (facetKinds ! i) (Filters (s ! i)) \<and> facetKinds ! i \<noteq> KindNone \<and>
   Key (s ! i) = facetKeys ! i"
proof -
  assume w: "wellFormed h s" and i: "i < 6"
  then have "filtersOfKind h (facetKinds ! i) (Filters (s ! i))"
    by (simp add: wellFormed_def list_all_iff)
  moreover have "facetKinds ! i \<noteq> KindNone"
    using i by (auto simp: facetKinds_def nth_Cons split: nat.splits)
  moreover have "Key (s ! i) = facetKeys ! i"
    using w i by (metis wellFormed_def nth_map)
  ultimately show ?thesis by blast
qed

lemma Combine_loop_nth:
  assumes "length s \<le> length other"
    and "\<forall>i<length s. \<exists>c. Combine_group h (s ! i) (other ! i) = Return c"
  shows "\<exists>R. Combine_loop h s other = Return R \<and> length R = length s \<and>
           (\<forall>i<length s. Combine_group h (s ! i) (other ! i) = Return (R ! i))"
  using assms
proof (induction s arbitrary: other)
  case Nil
  then show ?case by simp
next
  case (Cons g s)
  then obtain og os where o: "other = og # os" by (cases other) auto
  from Cons.prems(2) o obtain c where c: "Combine_group h g og = Return c"
    by fastforce
  have "\<forall>i<length s. \<exists>c. Combine_group h (s ! i) (os ! i) = Return c"
    using Cons.prems(2) o by fastforce
  with Cons.IH [of os] Cons.prems(1) o obtain R where
    R: "Combine_loop h s os = Return R" "length R = length s"
       "\<forall>i<length s. Combine_group h (s ! i) (os ! i) = Return (R ! i)"
    by auto
  show ?case
  proof (intro exI [of _ "c # R"] conjI allI impI)
    show "Combine_loop h (g # s) other = Return (c # R)" using o c R(1) by simp
    show "length (c # R) = length (g # s)" using R(2) by simp
    fix i assume "i < length (g # s)"
    then show "Combine_group h ((g # s) ! i) (other ! i) = Return ((c # R) ! i)"
      using o c R(3) by (cases i) auto
  qed
qed

lemma Sub_loop_nth:
  assumes "length s \<le> length other"
    and "\<forall>i<length s. \<exists>c. Sub_group h (s ! i) (other ! i) = Return c"
  shows "\<exists>R. Sub_loop h s other = Return R \<and> length R = length s \<and>
           (\<forall>i<length s. Sub_group h (s ! i) (other ! i) = Return (R ! i))"
  using assms
proof (induction s arbitrary: other)
  case Nil
  then show ?case by simp
next
  case (Cons g s)
  then obtain og os where o: "other = og # os" by (cases other) auto
  from Cons.prems(2) o obtain c where c: "Sub_group h g og = Return c"
    by fastforce
  have "\<forall>i<length s. \<exists>c. Sub_group h (s ! i) (os ! i) = Return c"
    using Cons.prems(2) o by fastforce
  with Cons.IH [of os] Cons.prems(1) o obtain R where
    R: "Sub_loop h s os = Return R" "length R = length s"
       "\<forall>i<length s. Sub_group h (s ! i) (os ! i) = Return (R ! i)"
    by auto
  show ?case
  proof (intro exI [of _ "c # R"] conjI allI impI)
    show "Sub_loop h (g # s) other = Return (c # R)" using o c R(1) by simp
    show "length (c # R) = length (g # s)" using R(2) by simp
    fix i assume "i < length (g # s)"
    then show "Sub_group h ((g # s) ! i) (other ! i) = Return ((c # R) ! i)"
      using o c R(3) by (cases i) auto
  qed
qed

lemma FindFilter_loop_kind:
  assumes "interned h" "filtersOfKind h k fs" "q < length h" "valueKind (Value (h ! q)) = k"
    and "k \<noteq> KindNone"
  shows "FindFilter_loop h fs q = Return (find (\<lambda>f. valueOf h f = valueOf h q) fs)"
  using assms(2)
proof (induction fs)
  case Nil
  then show ?case by simp
next
  case (Cons f fs)
  then have f: "f < length h" "valueKind (Value (h ! f)) = k" and r: "filtersOfKind h k fs"
    by (auto simp: filtersOfKind_def)
  have "Equal (h ! f) (h ! q) = Return (valueOf h f = valueOf h q, [])"
    using Equal_is_value_equality [OF f(2) assms(4,5)] interned_pair [OF assms(1) f(1) assms(3)]
    by (simp add: valueOf_def)
  then show ?case
    using Cons.IH [OF r] f(1) assms(3) by (simp add: Equal_at_valid)
qed

lemma Contains_kind:
  assumes "interned h" "filtersOfKind h k (Filters g)" "q < length h"
    and "valueKind (Value (h ! q)) = k" "k \<noteq> KindNone"
  shows "Contains h g q = Return (valueOf h q \<in> valueOf h ` set (Filters g))"
proof -
  have "(find (\<lambda>f. valueOf h f = valueOf h q) (Filters g) \<noteq> None) =
        (valueOf h q \<in> valueOf h ` set (Filters g))"
    unfolding find_None_iff image_iff by (simp add: eq_commute) blast
  then show ?thesis
    using FindFilter_loop_kind [OF assms] by (simp add: Contains_def FindFilter_def)
qed

lemma Combine_filters_kind:
  assumes "interned h" "k \<noteq> KindNone" "filtersOfKind h k fs" "filtersOfKind h k (Filters c)"
  shows "Combine_filters h c fs =
           Return (c\<lparr>Filters := appendAbsent (valueOf h) (Filters c) fs\<rparr>)"
  using assms(3,4)
proof (induction fs arbitrary: c)
  case Nil
  then show ?case by simp
next
  case (Cons f fs)
  from Cons.prems(1) have f: "f < length h" "valueKind (Value (h ! f)) = k"
    and fs: "filtersOfKind h k fs"
    by (auto simp: filtersOfKind_def)
  have cont: "Contains h c f = Return (valueOf h f \<in> valueOf h ` set (Filters c))"
    using Contains_kind [OF assms(1) Cons.prems(2) f assms(2)] .
  show ?case
  proof (cases "valueOf h f \<in> valueOf h ` set (Filters c)")
    case True
    with cont Cons.IH [OF fs Cons.prems(2)] show ?thesis by simp
  next
    case False
    have "filtersOfKind h k (Filters (c\<lparr>Filters := Filters c @ [f]\<rparr>))"
      using Cons.prems(2) f by (simp add: filtersOfKind_def)
    from Cons.IH [OF fs this] False cont show ?thesis by simp
  qed
qed

text \<open>Union by value: what \<open>appendAbsent\<close> computes.\<close>

lemma appendAbsent_prefix:
  "\<exists>news. appendAbsent v acc fs = acc @ news \<and> set news \<subseteq> set fs \<and>
          distinct (map v news) \<and> v ` set news \<inter> v ` set acc = {}"
proof (induction fs arbitrary: acc)
  case Nil
  show ?case by simp
next
  case (Cons f fs)
  show ?case
  proof (cases "v f \<in> v ` set acc")
    case True
    from Cons.IH [of acc] obtain news where
      "appendAbsent v acc fs = acc @ news" "set news \<subseteq> set fs"
      "distinct (map v news)" "v ` set news \<inter> v ` set acc = {}" by blast
    with True show ?thesis by (intro exI [of _ news]) auto
  next
    case False
    from Cons.IH [of "acc @ [f]"] obtain news where
      n: "appendAbsent v (acc @ [f]) fs = (acc @ [f]) @ news" "set news \<subseteq> set fs"
      "distinct (map v news)" "v ` set news \<inter> v ` set (acc @ [f]) = {}" by blast
    show ?thesis
    proof (intro exI [of _ "f # news"] conjI)
      show "appendAbsent v acc (f # fs) = acc @ f # news" using False n(1) by simp
      show "set (f # news) \<subseteq> set (f # fs)" using n(2) by auto
      show "distinct (map v (f # news))" using n(3,4) by auto
      show "v ` set (f # news) \<inter> v ` set acc = {}" using n(4) False by auto
    qed
  qed
qed

lemma appendAbsent_values:
  "v ` set (appendAbsent v acc fs) = v ` set acc \<union> v ` set fs"
  by (induction fs arbitrary: acc) auto

lemma appendAbsent_distinct:
  "distinct (map v acc) \<Longrightarrow> distinct (map v (appendAbsent v acc fs))"
  by (induction fs arbitrary: acc) auto

lemma appendAbsent_filter:
  "distinct (map v fs) \<Longrightarrow>
   appendAbsent v acc fs = acc @ filter (\<lambda>f. v f \<notin> v ` set acc) fs"
proof (induction fs arbitrary: acc)
  case Nil
  show ?case by simp
next
  case (Cons f fs)
  then have d: "distinct (map v fs)" and nf: "v f \<notin> v ` set fs" by auto
  show ?case
  proof (cases "v f \<in> v ` set acc")
    case True
    with Cons.IH [OF d, of acc] show ?thesis by simp
  next
    case False
    have ne: "v x \<noteq> v f" if "x \<in> set fs" for x
      using nf that by (metis imageI)
    have "filter (\<lambda>g. v g \<notin> v ` set (acc @ [f])) fs = filter (\<lambda>g. v g \<notin> v ` set acc) fs"
      using ne by (intro filter_cong) auto
    with Cons.IH [OF d, of "acc @ [f]"] False show ?thesis by simp
  qed
qed

text \<open>The rebuilt index of a group whose filters have distinct values.\<close>

lemma rebuildIndex_kind:
  assumes "k \<noteq> KindNone" "filtersOfKind h k (Filters g)"
  shows "\<exists>idx. rebuildIndex h g = Return (g\<lparr>filtersIdx := idx\<rparr>) \<and>
           rebuildIndex h (g\<lparr>filtersIdx := idx\<rparr>) = Return (g\<lparr>filtersIdx := idx\<rparr>) \<and>
           (distinct (map (valueOf h) (Filters g)) \<longrightarrow> indexOK h (g\<lparr>filtersIdx := idx\<rparr>))"
proof -
  from rebuildIndex_loop_returns [OF filtersOfKind_stringable [OF assms], of 0 Map.empty]
  obtain idx where
    r: "rebuildIndex_loop h (Filters g) 0 Map.empty = Return idx"
    and a: "\<And>s k. idx s = Some k \<Longrightarrow>
              k < length (Filters g) \<and> hasCanonicalString h s (Filters g ! k)"
    and b: "\<And>j. j < length (Filters g) \<Longrightarrow>
              \<exists>s k. hasCanonicalString h s (Filters g ! j) \<and> idx s = Some k"
    by fastforce
  have ok: "indexOK h (g\<lparr>filtersIdx := idx\<rparr>)" if d: "distinct (map (valueOf h) (Filters g))"
  proof -
    have "Filters g ! j < length h \<and>
          (case filterValueAsString (Value (h ! (Filters g ! j))) of
             Panic \<Rightarrow> False | Return s \<Rightarrow> idx s = Some j)"
      if j: "j < length (Filters g)" for j
    proof -
      from b [OF j] obtain s k' where
        sk: "hasCanonicalString h s (Filters g ! j)" "idx s = Some k'" by blast
      from a [OF sk(2)] have k': "k' < length (Filters g)"
        "hasCanonicalString h s (Filters g ! k')" by auto
      have kj: "valueKind (Value (h ! (Filters g ! j))) = k"
        using filtersOfKind_mem [OF assms(2), of "Filters g ! j"] j by simp
      have kk: "valueKind (Value (h ! (Filters g ! k'))) = k"
        using filtersOfKind_mem [OF assms(2), of "Filters g ! k'"] k'(1) by simp
      have "filterValueAsString (Value (h ! (Filters g ! j))) =
            filterValueAsString (Value (h ! (Filters g ! k')))"
        using sk(1) k'(2) by (simp add: hasCanonicalString_def)
      from canonical_string_inj [OF kj kk assms(1) this]
      have "valueOf h (Filters g ! j) = valueOf h (Filters g ! k')"
        by (simp add: valueOf_def)
      then have "map (valueOf h) (Filters g) ! j = map (valueOf h) (Filters g) ! k'"
        using j k'(1) by simp
      with d j k'(1) have "j = k'"
        by (auto simp: distinct_conv_nth)
      with sk show ?thesis by (simp add: hasCanonicalString_def)
    qed
    then show ?thesis
      by (fastforce simp: indexOK_def list_all_iff split: outcome.splits)
  qed
  from r ok show ?thesis
    by (intro exI [of _ idx]) (simp add: rebuildIndex_def)
qed

lemma Combine_group_kind:
  assumes "interned h" "k \<noteq> KindNone"
    and "filtersOfKind h k (Filters a)" "filtersOfKind h k (Filters b)"
  shows "\<exists>r. Combine_group h a b = Return r \<and> Key r = Key a \<and>
           Filters r = appendAbsent (valueOf h) (Filters a) (Filters b) \<and>
           filtersOfKind h k (Filters r) \<and>
           rebuildIndex h r = Return r \<and>
           (distinct (map (valueOf h) (Filters r)) \<longrightarrow> indexOK h r)"
proof -
  let ?c = "\<lparr>Key = Key a, Filters = [] @ Filters a, filtersIdx = Map.empty\<rparr>"
  let ?fs = "appendAbsent (valueOf h) (Filters a) (Filters b)"
  have kc: "filtersOfKind h k (Filters ?c)" using assms(3) by simp
  have cf: "Combine_filters h ?c (Filters b) = Return (?c\<lparr>Filters := ?fs\<rparr>)"
    using Combine_filters_kind [OF assms(1,2) assms(4) kc] by simp
  let ?d = "?c\<lparr>Filters := ?fs\<rparr>"
  from appendAbsent_prefix [of "valueOf h" "Filters a" "Filters b"] obtain news where
    n: "?fs = Filters a @ news" "set news \<subseteq> set (Filters b)" by blast
  have kn: "filtersOfKind h k news"
    using n(2) assms(4) by (auto simp: filtersOfKind_def list_all_iff)
  have kd: "filtersOfKind h k (Filters ?d)"
    using assms(3) kn n(1) by (simp add: filtersOfKind_append)
  from rebuildIndex_kind [OF assms(2) kd] obtain idx where
    i: "rebuildIndex h ?d = Return (?d\<lparr>filtersIdx := idx\<rparr>)"
       "rebuildIndex h (?d\<lparr>filtersIdx := idx\<rparr>) = Return (?d\<lparr>filtersIdx := idx\<rparr>)"
       "distinct (map (valueOf h) (Filters ?d)) \<longrightarrow> indexOK h (?d\<lparr>filtersIdx := idx\<rparr>)"
    by blast
  show ?thesis
  proof (intro exI [of _ "?d\<lparr>filtersIdx := idx\<rparr>"] conjI)
    show "Combine_group h a b = Return (?d\<lparr>filtersIdx := idx\<rparr>)"
      using cf i(1) by (simp add: Combine_group_def)
    show "filtersOfKind h k (Filters (?d\<lparr>filtersIdx := idx\<rparr>))" using kd by simp
    show "rebuildIndex h (?d\<lparr>filtersIdx := idx\<rparr>) = Return (?d\<lparr>filtersIdx := idx\<rparr>)"
      using i(2) .
    show "distinct (map (valueOf h) (Filters (?d\<lparr>filtersIdx := idx\<rparr>))) \<longrightarrow>
          indexOK h (?d\<lparr>filtersIdx := idx\<rparr>)"
      using i(3) by simp
  qed simp_all
qed

text \<open>
  C2. Let A and B be filter sets over the six facets, in a store whose string pointers
  are pool values. \<open>A.Combine(B)\<close> returns a filter set R over the six facets and leaves
  the store as it is. At each position the group of R is the union by value of the
  groups of A and B: it consists of the filters of A's group followed by filters of B's
  group that have pairwise different values, none of them the value of a filter of A's
  group, so that A's copy is the one kept for a value both have; its values are exactly
  the values of A's group together with those of B's group; when B's group has no two
  filters of one value, the filters added are all those of B's group whose value A's
  group does not have; when A's group has no two filters of one value (the invariant of
  a filter group), neither has the group of R, and its index maps the canonical string
  of each of its filters to the position of that filter; and in any case the index of
  the group of R is the one \<open>rebuildIndex\<close> computes. Values are compared as such: ints,
  communities and extended communities by their components, sources by the string they
  are or point to.
\<close>

theorem Combine_union:
  assumes "wellFormed h A" and "wellFormed h B" and "interned h"
  shows "\<exists>R. Combine h A B = Return (h, R) \<and> wellFormed h R \<and>
           (\<forall>i<6.
              Filters (R ! i) = appendAbsent (valueOf h) (Filters (A ! i)) (Filters (B ! i)) \<and>
              (\<exists>news. Filters (R ! i) = Filters (A ! i) @ news \<and>
                      set news \<subseteq> set (Filters (B ! i)) \<and>
                      distinct (map (valueOf h) news) \<and>
                      valueOf h ` set news \<inter> valueOf h ` set (Filters (A ! i)) = {}) \<and>
              valueOf h ` set (Filters (R ! i)) =
                valueOf h ` set (Filters (A ! i)) \<union> valueOf h ` set (Filters (B ! i)) \<and>
              (distinct (map (valueOf h) (Filters (A ! i))) \<longrightarrow>
                 distinct (map (valueOf h) (Filters (R ! i))) \<and> indexOK h (R ! i)) \<and>
              (distinct (map (valueOf h) (Filters (B ! i))) \<longrightarrow>
                 Filters (R ! i) =
                   Filters (A ! i) @
                   filter (\<lambda>f. valueOf h f \<notin> valueOf h ` set (Filters (A ! i)))
                     (Filters (B ! i))) \<and>
              rebuildIndex h (R ! i) = Return (R ! i))"
proof -
  have lenA: "length A = 6" and lenB: "length B = 6"
    using assms by (simp_all add: wellFormed_def)
  have grp: "\<exists>r. Combine_group h (A ! i) (B ! i) = Return r \<and> Key r = Key (A ! i) \<and>
           Filters r = appendAbsent (valueOf h) (Filters (A ! i)) (Filters (B ! i)) \<and>
           filtersOfKind h (facetKinds ! i) (Filters r) \<and>
           rebuildIndex h r = Return r \<and>
           (distinct (map (valueOf h) (Filters r)) \<longrightarrow> indexOK h r)"
    if "i < 6" for i
    using Combine_group_kind [OF assms(3), of "facetKinds ! i" "A ! i" "B ! i"]
      wellFormed_nth [OF assms(1) that] wellFormed_nth [OF assms(2) that]
    by blast
  have "\<forall>i<length A. \<exists>c. Combine_group h (A ! i) (B ! i) = Return c"
  proof (intro allI impI)
    fix i assume "i < length A"
    then have "i < 6" using lenA by simp
    from grp [OF this] show "\<exists>c. Combine_group h (A ! i) (B ! i) = Return c" by blast
  qed
  from Combine_loop_nth [OF _ this] lenA lenB obtain R where
    R: "Combine_loop h A B = Return R" "length R = 6"
       "\<And>i. i < 6 \<Longrightarrow> Combine_group h (A ! i) (B ! i) = Return (R ! i)"
    by auto
  have g: "Key (R ! i) = Key (A ! i) \<and>
           Filters (R ! i) = appendAbsent (valueOf h) (Filters (A ! i)) (Filters (B ! i)) \<and>
           filtersOfKind h (facetKinds ! i) (Filters (R ! i)) \<and>
           rebuildIndex h (R ! i) = Return (R ! i) \<and>
           (distinct (map (valueOf h) (Filters (R ! i))) \<longrightarrow> indexOK h (R ! i))"
    if "i < 6" for i
    using grp [OF that] R(3) [OF that] by auto
  have keys: "map Key R = facetKeys"
  proof (rule nth_equalityI)
    show "length (map Key R) = length facetKeys" using R(2) by (simp add: facetKeys_def)
    fix i assume "i < length (map Key R)"
    then have i: "i < 6" using R(2) by simp
    with g [OF i] wellFormed_nth [OF assms(1) i] R(2)
    show "map Key R ! i = facetKeys ! i" by simp
  qed
  have kinds: "\<And>i. i < 6 \<Longrightarrow> filtersOfKind h (facetKinds ! i) (Filters (R ! i))"
    using g by blast
  have wf: "wellFormed h R"
    using R(2) keys kinds by (simp add: wellFormed_def list_all_iff)
  have props: "Filters (R ! i) = appendAbsent (valueOf h) (Filters (A ! i)) (Filters (B ! i)) \<and>
              (\<exists>news. Filters (R ! i) = Filters (A ! i) @ news \<and>
                      set news \<subseteq> set (Filters (B ! i)) \<and>
                      distinct (map (valueOf h) news) \<and>
                      valueOf h ` set news \<inter> valueOf h ` set (Filters (A ! i)) = {}) \<and>
              valueOf h ` set (Filters (R ! i)) =
                valueOf h ` set (Filters (A ! i)) \<union> valueOf h ` set (Filters (B ! i)) \<and>
              (distinct (map (valueOf h) (Filters (A ! i))) \<longrightarrow>
                 distinct (map (valueOf h) (Filters (R ! i))) \<and> indexOK h (R ! i)) \<and>
              (distinct (map (valueOf h) (Filters (B ! i))) \<longrightarrow>
                 Filters (R ! i) =
                   Filters (A ! i) @
                   filter (\<lambda>f. valueOf h f \<notin> valueOf h ` set (Filters (A ! i)))
                     (Filters (B ! i))) \<and>
              rebuildIndex h (R ! i) = Return (R ! i)"
    if i: "i < 6" for i
  proof -
    note e = g [OF i]
    have 1: "Filters (R ! i) = appendAbsent (valueOf h) (Filters (A ! i)) (Filters (B ! i))"
      using e by blast
    have 2: "\<exists>news. Filters (R ! i) = Filters (A ! i) @ news \<and>
                      set news \<subseteq> set (Filters (B ! i)) \<and>
                      distinct (map (valueOf h) news) \<and>
                      valueOf h ` set news \<inter> valueOf h ` set (Filters (A ! i)) = {}"
      unfolding 1 by (rule appendAbsent_prefix)
    have 3: "valueOf h ` set (Filters (R ! i)) =
                valueOf h ` set (Filters (A ! i)) \<union> valueOf h ` set (Filters (B ! i))"
      unfolding 1 by (rule appendAbsent_values)
    have 4: "distinct (map (valueOf h) (Filters (R ! i))) \<and> indexOK h (R ! i)"
      if "distinct (map (valueOf h) (Filters (A ! i)))"
    proof -
      have "distinct (map (valueOf h) (Filters (R ! i)))"
        unfolding 1 using that by (rule appendAbsent_distinct)
      with e show ?thesis by blast
    qed
    have 5: "Filters (R ! i) =
                   Filters (A ! i) @
                   filter (\<lambda>f. valueOf h f \<notin> valueOf h ` set (Filters (A ! i)))
                     (Filters (B ! i))"
      if "distinct (map (valueOf h) (Filters (B ! i)))"
      unfolding 1 using that by (rule appendAbsent_filter)
    have 6: "rebuildIndex h (R ! i) = Return (R ! i)" using e by blast
    from 1 2 3 4 5 6 show ?thesis by blast
  qed
  have c: "Combine h A B = Return (h, R)" using R(1) by (simp add: Combine_def)
  show ?thesis
    apply (rule exI [of _ R])
    apply (rule conjI [OF c])
    apply (rule conjI [OF wf])
    apply (intro allI impI)
    apply (erule props)
    done
qed

theorem Combine_union_witness:
  "\<exists>R. Combine exampleStore exampleSetA exampleSetB = Return (exampleStore, R) \<and>
       Filters (R ! 1) = [3] \<and> Filters (R ! 2) = [0, 2] \<and>
       map (valueOf exampleStore) (Filters (R ! 2)) =
         [VCommunity [65000, 100], VCommunity [65000, 200]]"
proof -
  have wfA: "wellFormed exampleStore exampleSetA"
    by (simp add: wellFormed_def ex_defs facetKeys_def facetKinds_def filtersOfKind_def upt_rec)
  have wfB: "wellFormed exampleStore exampleSetB"
    by (simp add: wellFormed_def ex_defs facetKeys_def facetKinds_def filtersOfKind_def upt_rec)
  have i: "interned exampleStore"
    by (simp add: interned_def exampleStore_def)
  from Combine_union [OF wfA wfB i] obtain R where
    R: "Combine exampleStore exampleSetA exampleSetB = Return (exampleStore, R)"
       "\<And>i. i < 6 \<Longrightarrow> Filters (R ! i) =
          appendAbsent (valueOf exampleStore) (Filters (exampleSetA ! i)) (Filters (exampleSetB ! i))"
    by (elim exE conjE) (rule that, assumption, simp)
  have 1: "Filters (R ! 1) = [3]"
    using R(2) [of 1] by (simp add: exampleSetA_def exampleSetB_def)
  have 2: "Filters (R ! 2) = [0, 2]"
    using R(2) [of 2] by (simp add: ex_defs valueOf_def)
  have 3: "map (valueOf exampleStore) (Filters (R ! 2)) =
         [VCommunity [65000, 100], VCommunity [65000, 200]]"
    unfolding 2 by (simp add: exampleStore_def valueOf_def)
  from R(1) 1 2 3 show ?thesis by (intro exI [of _ R]) simp
qed

lemma Sub_filters_kind:
  assumes "interned h" "k \<noteq> KindNone" "filtersOfKind h k fs" "filtersOfKind h k (Filters og)"
  shows "Sub_filters h og d fs =
         Return (d\<lparr>Filters := Filters d @
                   filter (\<lambda>f. valueOf h f \<notin> valueOf h ` set (Filters og)) fs\<rparr>)"
  using assms(3)
proof (induction fs arbitrary: d)
  case Nil
  then show ?case by simp
next
  case (Cons f fs)
  from Cons.prems have f: "f < length h" "valueKind (Value (h ! f)) = k"
    and fs: "filtersOfKind h k fs"
    by (auto simp: filtersOfKind_def)
  have cont: "Contains h og f = Return (valueOf h f \<in> valueOf h ` set (Filters og))"
    using Contains_kind [OF assms(1) assms(4) f assms(2)] .
  show ?case
    using Cons.IH [OF fs] cont by simp
qed

lemma Sub_group_kind:
  assumes "interned h" "k \<noteq> KindNone"
    and "filtersOfKind h k (Filters a)" "filtersOfKind h k (Filters b)"
  shows "\<exists>r. Sub_group h a b = Return r \<and> Key r = Key a \<and>
           Filters r = filter (\<lambda>f. valueOf h f \<notin> valueOf h ` set (Filters b)) (Filters a) \<and>
           filtersOfKind h k (Filters r) \<and>
           rebuildIndex h r = Return r \<and>
           (distinct (map (valueOf h) (Filters r)) \<longrightarrow> indexOK h r)"
proof -
  let ?fs = "filter (\<lambda>f. valueOf h f \<notin> valueOf h ` set (Filters b)) (Filters a)"
  let ?d = "\<lparr>Key = Key a, Filters = [], filtersIdx = Map.empty\<rparr>"
  have s: "Sub_filters h b ?d (Filters a) = Return (?d\<lparr>Filters := Filters ?d @ ?fs\<rparr>)"
    using Sub_filters_kind [OF assms(1,2,3,4)] .
  let ?e = "?d\<lparr>Filters := Filters ?d @ ?fs\<rparr>"
  have ke: "filtersOfKind h k (Filters ?e)"
    using filtersOfKind_filter [OF assms(3)] by simp
  from rebuildIndex_kind [OF assms(2) ke] obtain idx where
    i: "rebuildIndex h ?e = Return (?e\<lparr>filtersIdx := idx\<rparr>)"
       "rebuildIndex h (?e\<lparr>filtersIdx := idx\<rparr>) = Return (?e\<lparr>filtersIdx := idx\<rparr>)"
       "distinct (map (valueOf h) (Filters ?e)) \<longrightarrow> indexOK h (?e\<lparr>filtersIdx := idx\<rparr>)"
    by blast
  show ?thesis
  proof (intro exI [of _ "?e\<lparr>filtersIdx := idx\<rparr>"] conjI)
    show "Sub_group h a b = Return (?e\<lparr>filtersIdx := idx\<rparr>)"
      using s i(1) by (simp add: Sub_group_def)
    show "rebuildIndex h (?e\<lparr>filtersIdx := idx\<rparr>) = Return (?e\<lparr>filtersIdx := idx\<rparr>)"
      using i(2) .
    show "filtersOfKind h k (Filters (?e\<lparr>filtersIdx := idx\<rparr>))" using ke by simp
    show "distinct (map (valueOf h) (Filters (?e\<lparr>filtersIdx := idx\<rparr>))) \<longrightarrow>
          indexOK h (?e\<lparr>filtersIdx := idx\<rparr>)"
      using i(3) by simp
  qed simp_all
qed

lemma Sub_wellFormed:
  assumes "wellFormed h A" and "wellFormed h B" and "interned h"
  shows "\<exists>R. Sub h A B = Return (h, R) \<and> wellFormed h R \<and>
           (\<forall>i<6. Filters (R ! i) =
                     filter (\<lambda>f. valueOf h f \<notin> valueOf h ` set (Filters (B ! i)))
                       (Filters (A ! i)) \<and>
                   rebuildIndex h (R ! i) = Return (R ! i) \<and>
                   (distinct (map (valueOf h) (Filters (A ! i))) \<longrightarrow> indexOK h (R ! i)))"
proof -
  have lenA: "length A = 6" and lenB: "length B = 6"
    using assms by (simp_all add: wellFormed_def)
  have grp: "\<exists>r. Sub_group h (A ! i) (B ! i) = Return r \<and> Key r = Key (A ! i) \<and>
           Filters r = filter (\<lambda>f. valueOf h f \<notin> valueOf h ` set (Filters (B ! i)))
                         (Filters (A ! i)) \<and>
           filtersOfKind h (facetKinds ! i) (Filters r) \<and>
           rebuildIndex h r = Return r \<and>
           (distinct (map (valueOf h) (Filters r)) \<longrightarrow> indexOK h r)"
    if "i < 6" for i
    using Sub_group_kind [OF assms(3), of "facetKinds ! i" "A ! i" "B ! i"]
      wellFormed_nth [OF assms(1) that] wellFormed_nth [OF assms(2) that]
    by blast
  have "\<forall>i<length A. \<exists>c. Sub_group h (A ! i) (B ! i) = Return c"
  proof (intro allI impI)
    fix i assume "i < length A"
    then have "i < 6" using lenA by simp
    from grp [OF this] show "\<exists>c. Sub_group h (A ! i) (B ! i) = Return c" by blast
  qed
  from Sub_loop_nth [OF _ this] lenA lenB obtain R where
    R: "Sub_loop h A B = Return R" "length R = 6"
       "\<And>i. i < 6 \<Longrightarrow> Sub_group h (A ! i) (B ! i) = Return (R ! i)"
    by auto
  have g: "Key (R ! i) = Key (A ! i) \<and> filtersOfKind h (facetKinds ! i) (Filters (R ! i)) \<and>
         Filters (R ! i) = filter (\<lambda>f. valueOf h f \<notin> valueOf h ` set (Filters (B ! i)))
                         (Filters (A ! i)) \<and>
         rebuildIndex h (R ! i) = Return (R ! i) \<and>
         (distinct (map (valueOf h) (Filters (R ! i))) \<longrightarrow> indexOK h (R ! i))"
    if "i < 6" for i
    using grp [OF that] R(3) [OF that] by auto
  have keys: "map Key R = facetKeys"
  proof (rule nth_equalityI)
    show "length (map Key R) = length facetKeys" using R(2) by (simp add: facetKeys_def)
    fix i assume "i < length (map Key R)"
    then have i: "i < 6" using R(2) by simp
    with g [OF i] wellFormed_nth [OF assms(1) i] R(2)
    show "map Key R ! i = facetKeys ! i" by simp
  qed
  have kinds: "\<And>i. i < 6 \<Longrightarrow> filtersOfKind h (facetKinds ! i) (Filters (R ! i))"
    using g by blast
  have wf: "wellFormed h R"
    using R(2) keys kinds by (simp add: wellFormed_def list_all_iff)
  have props: "Filters (R ! i) =
                     filter (\<lambda>f. valueOf h f \<notin> valueOf h ` set (Filters (B ! i)))
                       (Filters (A ! i)) \<and>
                   rebuildIndex h (R ! i) = Return (R ! i) \<and>
                   (distinct (map (valueOf h) (Filters (A ! i))) \<longrightarrow> indexOK h (R ! i))"
    if i: "i < 6" for i
  proof -
    note e = g [OF i]
    have 1: "Filters (R ! i) =
                     filter (\<lambda>f. valueOf h f \<notin> valueOf h ` set (Filters (B ! i)))
                       (Filters (A ! i))" using e by blast
    have "indexOK h (R ! i)" if "distinct (map (valueOf h) (Filters (A ! i)))"
    proof -
      have "distinct (map (valueOf h) (Filters (R ! i)))"
        unfolding 1 using that by (rule distinct_map_filter)
      with e show ?thesis by blast
    qed
    with 1 e show ?thesis by blast
  qed
  have c: "Sub h A B = Return (h, R)" using R(1) by (simp add: Sub_def)
  show ?thesis
    apply (rule exI [of _ R])
    apply (rule conjI [OF c])
    apply (rule conjI [OF wf])
    apply (intro allI impI)
    apply (erule props)
    done
qed

text \<open>
  C3. Let A and B be filter sets over the six facets, in a store whose string pointers
  are pool values. \<open>A.Sub(B)\<close> returns a filter set over the six facets and leaves the
  store as it is; its group at each position holds exactly the filters of A's group, in
  their order, whose value is not the value of any filter of B's group, with the index
  rebuilt (and mapping the canonical string of each filter to its position when A's
  group has no two filters of one value). Every group of \<open>A.Sub(A)\<close> is empty.
\<close>

theorem Sub_difference:
  assumes "wellFormed h A" and "wellFormed h B" and "interned h"
  shows "(\<exists>R. Sub h A B = Return (h, R) \<and> wellFormed h R \<and>
            (\<forall>i<6. Filters (R ! i) =
                      filter (\<lambda>f. valueOf h f \<notin> valueOf h ` set (Filters (B ! i)))
                        (Filters (A ! i)) \<and>
                    rebuildIndex h (R ! i) = Return (R ! i) \<and>
                    (distinct (map (valueOf h) (Filters (A ! i))) \<longrightarrow> indexOK h (R ! i)))) \<and>
         (\<exists>R. Sub h A A = Return (h, R) \<and> length R = 6 \<and> (\<forall>i<6. Filters (R ! i) = []))"
proof
  show "\<exists>R. Sub h A B = Return (h, R) \<and> wellFormed h R \<and>
            (\<forall>i<6. Filters (R ! i) =
                      filter (\<lambda>f. valueOf h f \<notin> valueOf h ` set (Filters (B ! i)))
                        (Filters (A ! i)) \<and>
                    rebuildIndex h (R ! i) = Return (R ! i) \<and>
                    (distinct (map (valueOf h) (Filters (A ! i))) \<longrightarrow> indexOK h (R ! i)))"
    using Sub_wellFormed [OF assms] .
next
  from Sub_wellFormed [OF assms(1) assms(1) assms(3)] obtain R where
    R: "Sub h A A = Return (h, R)" "wellFormed h R"
       "\<And>i. i < 6 \<Longrightarrow> Filters (R ! i) =
                      filter (\<lambda>f. valueOf h f \<notin> valueOf h ` set (Filters (A ! i)))
                        (Filters (A ! i))"
    by blast
  have "Filters (R ! i) = []" if "i < 6" for i
    using R(3) [OF that] by (simp add: filter_empty_conv)
  with R(1,2) show "\<exists>R. Sub h A A = Return (h, R) \<and> length R = 6 \<and> (\<forall>i<6. Filters (R ! i) = [])"
    by (intro exI [of _ R]) (simp add: wellFormed_def)
qed

theorem Sub_difference_witness:
  "\<exists>R. Sub exampleStore exampleSetB exampleSetA = Return (exampleStore, R) \<and>
       Filters (R ! 1) = [] \<and> Filters (R ! 2) = [2] \<and>
       map (valueOf exampleStore) (Filters (R ! 2)) = [VCommunity [65000, 200]]"
proof -
  have wfA: "wellFormed exampleStore exampleSetA"
    by (simp add: wellFormed_def ex_defs facetKeys_def facetKinds_def filtersOfKind_def upt_rec)
  have wfB: "wellFormed exampleStore exampleSetB"
    by (simp add: wellFormed_def ex_defs facetKeys_def facetKinds_def filtersOfKind_def upt_rec)
  have i: "interned exampleStore"
    by (simp add: interned_def exampleStore_def)
  from Sub_difference [OF wfB wfA i] obtain R where
    R: "Sub exampleStore exampleSetB exampleSetA = Return (exampleStore, R)"
       "\<And>i. i < 6 \<Longrightarrow> Filters (R ! i) =
           filter (\<lambda>f. valueOf exampleStore f \<notin>
                        valueOf exampleStore ` set (Filters (exampleSetA ! i)))
             (Filters (exampleSetB ! i))"
    by (elim exE conjE) (rule that, assumption, simp)
  have 1: "Filters (R ! 1) = []"
    using R(2) [of 1] by (simp add: exampleSetA_def exampleSetB_def)
  have 2: "Filters (R ! 2) = [2]"
    using R(2) [of 2] by (simp add: ex_defs valueOf_def)
  have 3: "map (valueOf exampleStore) (Filters (R ! 2)) = [VCommunity [65000, 200]]"
    unfolding 2 by (simp add: exampleStore_def valueOf_def)
  from R(1) 1 2 3 show ?thesis by (intro exI [of _ R]) simp
qed

end
